theory Spec2Isabelle
  imports Complex_Main "HOL-Library.Monad_Syntax" "HOL-Library.Sublist" "HOL-Library.Multiset"
begin

section \<open>Python values and primitives used by features.py\<close>

text \<open>
  A Python \<open>str\<close> is a \<^typ>\<open>string\<close>; its characters are read as the code points
  U+0000 .. U+00FF.  A Python \<open>float\<close> is a \<^typ>\<open>real\<close>, a Python \<open>int\<close> that is a
  length or a counter is a \<^typ>\<open>nat\<close>.  An operation that can raise returns an
  \<open>option\<close>: \<open>None\<close> is the raised exception (the only handler of the module is
  \<open>except Exception\<close>, which does not look at the kind of the exception).
\<close>

definition getitem :: "'a list \<Rightarrow> nat \<Rightarrow> 'a option" where
  \<comment> \<open>\<open>xs[i]\<close> for \<open>i \<ge> 0\<close>; IndexError out of range\<close>
  "getitem xs i = (if i < length xs then Some (xs ! i) else None)"

definition setitem :: "'a list \<Rightarrow> nat \<Rightarrow> 'a \<Rightarrow> 'a list option" where
  \<comment> \<open>\<open>xs[i] = v\<close> for \<open>i \<ge> 0\<close>; IndexError out of range\<close>
  "setitem xs i v = (if i < length xs then Some (xs[i := v]) else None)"

definition getlast :: "'a list \<Rightarrow> 'a option" where
  \<comment> \<open>\<open>xs[-1]\<close>; IndexError on the empty list\<close>
  "getlast xs = (if xs = [] then None else Some (last xs))"

definition py_min :: "nat list \<Rightarrow> nat option" where
  \<comment> \<open>\<open>min(iterable)\<close>; ValueError on an empty iterable\<close>
  "py_min xs = (case xs of [] \<Rightarrow> None | y # ys \<Rightarrow> Some (fold min ys y))"

definition truediv :: "real \<Rightarrow> real \<Rightarrow> real option" where
  \<comment> \<open>\<open>x / y\<close>; ZeroDivisionError when \<open>y\<close> is zero\<close>
  "truediv x y = (if y = 0 then None else Some (x / y))"

definition log2 :: "real \<Rightarrow> real option" where
  \<comment> \<open>\<open>math.log2(x)\<close>; ValueError (math domain error) unless \<open>x > 0\<close>\<close>
  "log2 x = (if 0 < x then Some (log 2 x) else None)"

primrec mapM :: "('a \<Rightarrow> 'b option) \<Rightarrow> 'a list \<Rightarrow> 'b list option" where
  "mapM f [] = Some []"
| "mapM f (x # xs) = do { y \<leftarrow> f x; ys \<leftarrow> mapM f xs; Some (y # ys) }"

section \<open>levenshtein\<close>

text \<open>
  The inner loop \<open>for j in range(1, n + 1)\<close> and the outer loop
  \<open>for i in range(1, m + 1)\<close>, each over the list of its indices.
\<close>

fun lev_inner :: "string \<Rightarrow> string \<Rightarrow> nat \<Rightarrow> nat list \<Rightarrow> nat list \<Rightarrow> nat list \<Rightarrow> nat list option" where
  "lev_inner a b i prev cur [] = Some cur"
| "lev_inner a b i prev cur (j # js) = do {
     ai \<leftarrow> getitem a (i - 1);
     bj \<leftarrow> getitem b (j - 1);
     let cost = (if ai = bj then 0 else 1);
     pj \<leftarrow> getitem prev j;
     cj \<leftarrow> getitem cur (j - 1);
     pj1 \<leftarrow> getitem prev (j - 1);
     cur' \<leftarrow> setitem cur j (min (pj + 1) (min (cj + 1) (pj1 + cost)));
     lev_inner a b i prev cur' js }"

fun lev_outer :: "string \<Rightarrow> string \<Rightarrow> nat \<Rightarrow> nat list \<Rightarrow> nat list \<Rightarrow> nat list option" where
  "lev_outer a b n prev [] = Some prev"
| "lev_outer a b n prev (i # is) = do {
     cur \<leftarrow> lev_inner a b i prev (i # replicate n 0) [1..<n + 1];
     lev_outer a b n cur is }"

definition levenshtein :: "string \<Rightarrow> string \<Rightarrow> nat option" where
  "levenshtein a0 b0 =
     (let (a, b) = (if length a0 < length b0 then (b0, a0) else (a0, b0));
          m = length a; n = length b
      in do { prev \<leftarrow> lev_outer a b n [0..<n + 1] [1..<m + 1];
              getitem prev n })"

text \<open>
  The edit distance with unit costs, by recursion on the two strings: the reference the
  loops are compared with.
\<close>

fun edit_distance :: "'a list \<Rightarrow> 'a list \<Rightarrow> nat" where
  "edit_distance [] ys = length ys"
| "edit_distance xs [] = length xs"
| "edit_distance (x # xs) (y # ys) =
     min (edit_distance xs (y # ys) + 1)
         (min (edit_distance (x # xs) ys + 1)
              (edit_distance xs ys + (if x = y then 0 else 1)))"

abbreviation lev_cell :: "string \<Rightarrow> string \<Rightarrow> nat \<Rightarrow> nat \<Rightarrow> nat" where
  "lev_cell a b i j \<equiv> edit_distance (rev (take i a)) (rev (take j b))"

section \<open>Characters and str methods\<close>

definition code_point :: "char \<Rightarrow> nat" where
  "code_point c = of_char c"

definition isascii :: "char \<Rightarrow> bool" where
  "isascii c = (code_point c < 128)"

definition isalpha :: "char \<Rightarrow> bool" where
  \<comment> \<open>\<open>str.isalpha\<close> on U+0000 .. U+00FF\<close>
  "isalpha c = (let n = code_point c in
     (65 \<le> n \<and> n \<le> 90) \<or> (97 \<le> n \<and> n \<le> 122) \<or> n = 170 \<or> n = 181 \<or> n = 186
     \<or> (192 \<le> n \<and> n \<le> 214) \<or> (216 \<le> n \<and> n \<le> 246) \<or> (248 \<le> n \<and> n \<le> 255))"

definition isdecimal :: "char \<Rightarrow> bool" where
  \<comment> \<open>the decimal digits, which are also what \<open>\d\<close> matches\<close>
  "isdecimal c = (let n = code_point c in 48 \<le> n \<and> n \<le> 57)"

definition isdigit :: "char \<Rightarrow> bool" where
  \<comment> \<open>\<open>str.isdigit\<close>: the decimal digits and the superscripts 1, 2, 3\<close>
  "isdigit c = (let n = code_point c in (48 \<le> n \<and> n \<le> 57) \<or> n = 178 \<or> n = 179 \<or> n = 185)"

definition isword :: "char \<Rightarrow> bool" where
  \<comment> \<open>what \<open>\w\<close> matches: \<open>str.isalnum\<close> or the underscore\<close>
  "isword c = (let n = code_point c in
     isalpha c \<or> isdigit c \<or> n = 95 \<or> (188 \<le> n \<and> n \<le> 190))"

definition lower_chr :: "char \<Rightarrow> char" where
  "lower_chr c = (let n = code_point c in
     if (65 \<le> n \<and> n \<le> 90) \<or> (192 \<le> n \<and> n \<le> 214) \<or> (216 \<le> n \<and> n \<le> 222)
     then char_of (n + 32) else c)"

definition str_lower :: "string \<Rightarrow> string" where
  "str_lower s = map lower_chr s"

definition str_isdigit :: "string \<Rightarrow> bool" where
  "str_isdigit s = (s \<noteq> [] \<and> list_all isdigit s)"

fun str_in :: "string \<Rightarrow> string \<Rightarrow> bool" where
  \<comment> \<open>\<open>sub in s\<close>\<close>
  "str_in sub [] = (sub = [])"
| "str_in sub (c # cs) = (prefix sub (c # cs) \<or> str_in sub cs)"

fun str_split :: "char \<Rightarrow> string \<Rightarrow> string list" where
  \<comment> \<open>\<open>s.split(sep)\<close> for a separator of one character\<close>
  "str_split sep [] = [[]]"
| "str_split sep (c # cs) =
     (if c = sep then [] # str_split sep cs
      else (case str_split sep cs of [] \<Rightarrow> [[c]] | w # ws \<Rightarrow> (c # w) # ws))"

fun str_join :: "string \<Rightarrow> string list \<Rightarrow> string" where
  \<comment> \<open>\<open>sep.join(xs)\<close>\<close>
  "str_join sep [] = []"
| "str_join sep [x] = x"
| "str_join sep (x # y # ys) = x @ sep @ str_join sep (y # ys)"

definition str_partition :: "char \<Rightarrow> string \<Rightarrow> string \<times> string \<times> string" where
  \<comment> \<open>\<open>s.partition(sep)\<close> for a separator of one character\<close>
  "str_partition sep s =
     (if sep \<in> set s
      then (takeWhile (\<lambda>c. c \<noteq> sep) s, [sep], drop 1 (dropWhile (\<lambda>c. c \<noteq> sep) s))
      else (s, [], []))"

fun split_once :: "string \<Rightarrow> string \<Rightarrow> (string \<times> string) option" where
  \<comment> \<open>the text before and after the first occurrence of \<open>sep\<close>\<close>
  "split_once sep [] = (if sep = [] then Some ([], []) else None)"
| "split_once sep (c # cs) =
     (if prefix sep (c # cs) then Some ([], drop (length sep) (c # cs))
      else map_option (\<lambda>(a, b). (c # a, b)) (split_once sep cs))"

definition str_split1 :: "string \<Rightarrow> string \<Rightarrow> string list" where
  \<comment> \<open>\<open>s.split(sep, 1)\<close>\<close>
  "str_split1 sep s = (case split_once sep s of None \<Rightarrow> [s] | Some (a, b) \<Rightarrow> [a, b])"

definition str_find_from :: "char \<Rightarrow> string \<Rightarrow> nat \<Rightarrow> int" where
  \<comment> \<open>\<open>s.find(c, start)\<close>: the first index from \<open>start\<close> on, or -1\<close>
  "str_find_from c s start =
     (if c \<in> set (drop start s)
      then int (start + length (takeWhile (\<lambda>x. x \<noteq> c) (drop start s))) else - 1)"

definition str_find :: "char \<Rightarrow> string \<Rightarrow> int" where
  "str_find c s = str_find_from c s 0"

definition str_rfind :: "char \<Rightarrow> string \<Rightarrow> int" where
  \<comment> \<open>\<open>s.rfind(c)\<close>: the last index, or -1\<close>
  "str_rfind c s =
     (if c \<in> set s then int (length s - 1 - length (takeWhile (\<lambda>x. x \<noteq> c) (rev s))) else - 1)"

definition slice_index :: "'a list \<Rightarrow> int \<Rightarrow> nat" where
  \<comment> \<open>the position a slice bound stands for: negative bounds count from the end\<close>
  "slice_index s i = (if i < 0 then nat (max (int (length s) + i) 0) else min (nat i) (length s))"

definition slice :: "'a list \<Rightarrow> int \<Rightarrow> int \<Rightarrow> 'a list" where
  \<comment> \<open>\<open>s[i:j]\<close>\<close>
  "slice s i j = take (slice_index s j - slice_index s i) (drop (slice_index s i) s)"

definition slice_to :: "'a list \<Rightarrow> int \<Rightarrow> 'a list" where
  \<comment> \<open>\<open>s[:j]\<close>\<close>
  "slice_to s j = take (slice_index s j) s"

definition slice_from :: "'a list \<Rightarrow> int \<Rightarrow> 'a list" where
  \<comment> \<open>\<open>s[i:]\<close>\<close>
  "slice_from s i = drop (slice_index s i) s"

section \<open>What the interpreter and its library fix\<close>

text \<open>
  Three things features.py relies on are fixed by the Python installation and by the
  running process, not by the module:
  \<^item> \<open>urllib.parse\<close> validates a netloc that holds both brackets (an IPv6 or IPvFuture
    literal) with the \<open>ipaddress\<close> module, in the versions that have the check;
  \<^item> \<open>int(str)\<close> refuses strings longer than \<open>sys.get_int_max_str_digits()\<close> digits
    (0 switches the limit off);
  \<^item> the order in which a \<open>set\<close> of strings or of characters is iterated depends on the
    hash seed of the process.
  They are the fields of the record below, and every function that depends on one takes
  the record as its first argument.
\<close>

record pyenv =
  bracketed_netloc_ok :: "string \<Rightarrow> bool"
  int_max_str_digits :: nat
  set_order :: "string list \<Rightarrow> string list"
  chars_order :: "char list \<Rightarrow> char list"

definition order_ok :: "pyenv \<Rightarrow> bool" where
  \<comment> \<open>iterating a set visits each of its elements once\<close>
  "order_ok env \<longleftrightarrow>
     (\<forall>xs. distinct xs \<longrightarrow> mset (set_order env xs) = mset xs) \<and>
     (\<forall>cs. distinct cs \<longrightarrow> mset (chars_order env cs) = mset cs)"

definition same_library :: "pyenv \<Rightarrow> pyenv \<Rightarrow> bool" where
  "same_library e1 e2 \<longleftrightarrow>
     bracketed_netloc_ok e1 = bracketed_netloc_ok e2 \<and> int_max_str_digits e1 = int_max_str_digits e2"

definition default_env :: pyenv where
  \<comment> \<open>no validation of bracketed hosts, the default digit limit, sets iterated as written\<close>
  "default_env = \<lparr>bracketed_netloc_ok = (\<lambda>netloc. True), int_max_str_digits = 4300,
                  set_order = (\<lambda>xs. xs), chars_order = (\<lambda>cs. cs)\<rparr>"

definition iter_set :: "pyenv \<Rightarrow> string list \<Rightarrow> string list" where
  \<comment> \<open>the elements of the set built from \<open>xs\<close>, in the order this process iterates them\<close>
  "iter_set env xs = set_order env (remdups xs)"

definition iter_chars :: "pyenv \<Rightarrow> string \<Rightarrow> char list" where
  \<comment> \<open>the elements of \<open>set(s)\<close>, in the order this process iterates them\<close>
  "iter_chars env s = chars_order env (remdups s)"

definition py_int :: "pyenv \<Rightarrow> string \<Rightarrow> int option" where
  \<comment> \<open>\<open>int(s)\<close> for a string of digits; ValueError on a digit that is not decimal and on
      a string longer than the limit\<close>
  "py_int env s =
     (if s = [] \<or> \<not> list_all isdecimal s then None
      else if 0 < int_max_str_digits env \<and> int_max_str_digits env < length s then None
      else Some (foldl (\<lambda>a c. 10 * a + (int (code_point c) - 48)) 0 s))"

section \<open>urllib.parse.urlparse\<close>

text \<open>
  \<open>urlparse\<close> is the library's; it is modelled after CPython 3.12 (\<open>urlsplit\<close>,
  \<open>_splitnetloc\<close>, \<open>_splitparams\<close>, \<open>urlparse\<close>), for strings of the code points above.
  \<open>_checknetloc\<close> does not raise on them: no character up to U+00FF normalises to one
  of \<open>/?#@:\<close>.
\<close>

record split_result =
  sr_scheme :: string
  sr_netloc :: string
  sr_path :: string
  sr_query :: string
  sr_fragment :: string

record parse_result =
  pr_scheme :: string
  pr_netloc :: string
  pr_path :: string
  pr_params :: string
  pr_query :: string
  pr_fragment :: string

definition scheme_chars :: string where
  "scheme_chars = ''abcdefghijklmnopqrstuvwxyzABCDEFGHIJKLMNOPQRSTUVWXYZ0123456789+-.''"

definition uses_params :: "string list" where
  "uses_params = ['''', ''ftp'', ''hdl'', ''prospero'', ''http'', ''imap'', ''https'', ''shttp'',
                  ''rtsp'', ''rtsps'', ''rtspu'', ''sip'', ''sips'', ''mms'', ''sftp'', ''tel'']"

definition c0_control_or_space :: "char \<Rightarrow> bool" where
  "c0_control_or_space c = (code_point c \<le> 32)"

definition unsafe_url_bytes_to_remove :: string where
  \<comment> \<open>tab, carriage return, line feed\<close>
  "unsafe_url_bytes_to_remove = [CHR 0x09, CHR 0x0D, CHR 0x0A]"

definition splitnetloc :: "string \<Rightarrow> nat \<Rightarrow> string \<times> string" where
  "splitnetloc url start =
     (let delim = foldl (\<lambda>delim c. let wdelim = str_find_from c url start
                                    in if 0 \<le> wdelim then min delim wdelim else delim)
                        (int (length url)) ''/?#''
      in (slice url (int start) delim, slice_from url delim))"

definition splitparams :: "string \<Rightarrow> string \<times> string" where
  "splitparams url =
     (if CHR ''/'' \<in> set url
      then (let i = str_find_from CHR '';'' url (nat (str_rfind CHR ''/'' url))
            in if i < 0 then (url, '''') else (slice_to url i, slice_from url (i + 1)))
      else (let i = str_find CHR '';'' url
            in (slice_to url i, slice_from url (i + 1))))"

definition urlsplit :: "pyenv \<Rightarrow> string \<Rightarrow> split_result option" where
  "urlsplit env url0 =
     (let url1 = dropWhile c0_control_or_space url0;
          url2 = filter (\<lambda>c. c \<notin> set unsafe_url_bytes_to_remove) url1;
          i = str_find CHR '':'' url2;
          (scheme, url3) =
            (if 0 < i \<and> isascii (url2 ! 0) \<and> isalpha (url2 ! 0)
                \<and> list_all (\<lambda>c. c \<in> set scheme_chars) (slice_to url2 i)
             then (str_lower (slice_to url2 i), slice_from url2 (i + 1))
             else ('''', url2))
      in do {
        (netloc, url4) \<leftarrow>
          (if slice_to url3 2 = ''//''
           then (let (netloc, rest) = splitnetloc url3 2
                 in if (CHR ''['' \<in> set netloc \<and> CHR '']'' \<notin> set netloc)
                       \<or> (CHR '']'' \<in> set netloc \<and> CHR ''['' \<notin> set netloc)
                    then None
                    else if CHR ''['' \<in> set netloc \<and> CHR '']'' \<in> set netloc
                            \<and> \<not> bracketed_netloc_ok env netloc
                    then None
                    else Some (netloc, rest))
           else Some ('''', url3));
        let (url5, fragment) =
              (if CHR ''#'' \<in> set url4
               then (case split_once ''#'' url4 of Some ab \<Rightarrow> ab | None \<Rightarrow> (url4, ''''))
               else (url4, ''''));
        let (url6, query) =
              (if CHR ''?'' \<in> set url5
               then (case split_once ''?'' url5 of Some ab \<Rightarrow> ab | None \<Rightarrow> (url5, ''''))
               else (url5, ''''));
        Some \<lparr>sr_scheme = scheme, sr_netloc = netloc, sr_path = url6,
              sr_query = query, sr_fragment = fragment\<rparr> })"

definition urlparse :: "pyenv \<Rightarrow> string \<Rightarrow> parse_result option" where
  "urlparse env url = do {
     sr \<leftarrow> urlsplit env url;
     let (url', params) =
           (if sr_scheme sr \<in> set uses_params \<and> CHR '';'' \<in> set (sr_path sr)
            then splitparams (sr_path sr) else (sr_path sr, ''''));
     Some \<lparr>pr_scheme = sr_scheme sr, pr_netloc = sr_netloc sr, pr_path = url',
           pr_params = params, pr_query = sr_query sr, pr_fragment = sr_fragment sr\<rparr> }"

section \<open>parse_url_parts\<close>

record parsed_url =
  scheme :: string
  host :: string
  path :: string
  query :: string
  fragment :: string
  port :: "int option"
  tld :: string
  registered_domain :: string
  subdomain :: string
  labels :: "string list"

definition parse_try :: "pyenv \<Rightarrow> string \<Rightarrow> parsed_url option" where
  \<comment> \<open>the body of the \<open>try\<close>\<close>
  "parse_try env url = do {
     p \<leftarrow> urlparse env url;
     let netloc = str_lower (pr_netloc p);
     host_port \<leftarrow> getlast (str_split CHR ''@'' netloc);
     let (host, _, port_str) = str_partition CHR '':'' host_port;
     port \<leftarrow> (if str_isdigit port_str then map_option Some (py_int env port_str) else Some None);
     let labels = str_split CHR ''.'' host;
     tld \<leftarrow> (if labels \<noteq> [] then getlast labels else Some '''');
     let reg = (if 2 \<le> length labels then str_join ''.'' (slice_from labels (- 2)) else host);
     let sub = (if 2 < length labels then str_join ''.'' (slice_to labels (- 2)) else '''');
     Some \<lparr>scheme = str_lower (pr_scheme p), host = host, path = pr_path p,
           query = pr_query p, fragment = pr_fragment p, port = port,
           tld = tld, registered_domain = reg, subdomain = sub, labels = labels\<rparr> }"

definition parse_except :: "string \<Rightarrow> parsed_url" where
  \<comment> \<open>the \<open>except Exception\<close> branch\<close>
  "parse_except url =
     \<lparr>scheme = '''', host = url, path = '''', query = '''', fragment = '''', port = None,
      tld = '''', registered_domain = url, subdomain = '''', labels = [url]\<rparr>"

definition parse_url_parts :: "pyenv \<Rightarrow> string \<Rightarrow> parsed_url" where
  "parse_url_parts env url =
     (case parse_try env url of Some p \<Rightarrow> p | None \<Rightarrow> parse_except url)"

section \<open>Constants of features.py\<close>

definition BRANDS :: "string list" where
  "BRANDS = [
    ''google'', ''facebook'', ''amazon'', ''apple'', ''microsoft'', ''paypal'', ''netflix'',
    ''instagram'', ''twitter'', ''linkedin'', ''whatsapp'', ''youtube'', ''yahoo'', ''ebay'',
    ''dropbox'', ''spotify'', ''adobe'', ''chase'', ''wellsfargo'', ''bankofamerica'',
    ''citi'', ''hsbc'', ''barclays'', ''halifax'', ''natwest'', ''santander'', ''lloyds'',
    ''steam'', ''roblox'', ''epic'', ''coinbase'', ''binance'', ''metamask'', ''opensea'',
    ''paytm'', ''phonepe'', ''gpay'', ''bhim'', ''razorpay'', ''hdfc'', ''icici'', ''sbi'',
    ''axis'', ''kotak'', ''airtel'', ''jio'', ''vodafone'', ''bsnl'', ''flipkart'', ''myntra'']"

text \<open>The sets below are only tested for membership; a list holds their elements.\<close>

definition SUSPICIOUS_TLDS :: "string list" where
  "SUSPICIOUS_TLDS = [
    ''xyz'', ''tk'', ''top'', ''cf'', ''ml'', ''ga'', ''gq'', ''pw'', ''cc'', ''icu'', ''club'', ''online'',
    ''site'', ''website'', ''space'', ''live'', ''click'', ''link'', ''info'', ''biz'', ''work'',
    ''tech'', ''store'', ''shop'', ''ru'', ''cn'', ''vip'', ''win'', ''loan'', ''download'']"

definition LEGIT_UPI_HANDLES :: "string list" where
  "LEGIT_UPI_HANDLES = [
    ''okaxis'', ''okicici'', ''oksbi'', ''okhdfcbank'', ''ybl'', ''ibl'', ''axl'', ''apl'', ''fbl'',
    ''upi'', ''paytm'', ''waaxis'', ''waxis'', ''rajgovhdfcbank'', ''barodampay'', ''allbank'',
    ''andb'', ''aubank'', ''cnrb'', ''csbpay'', ''dbs'', ''dcb'', ''federal'', ''hdfcbank'', ''idbi'',
    ''idfc'', ''indus'', ''idfcbank'', ''jio'', ''kotak'', ''lvb'', ''mahb'', ''nsdl'', ''pnb'',
    ''psb'', ''rbl'', ''sib'', ''tjsb'', ''uco'', ''union'', ''united'', ''vijb'', ''yapl'', ''airtel'',
    ''airtelpaymentsbank'', ''postbank'']"

definition SHORT_URL_SERVICES :: "string list" where
  "SHORT_URL_SERVICES = [
    ''bit.ly'', ''tinyurl.com'', ''t.co'', ''goo.gl'', ''ow.ly'', ''is.gd'', ''buff.ly'',
    ''adf.ly'', ''tiny.cc'', ''clck.ru'', ''cutt.ly'', ''rb.gy'', ''short.io'', ''v.gd'',
    ''bitly.com'', ''shorte.st'', ''t2m.io'']"

definition DANGEROUS_EXTENSIONS :: "string list" where
  "DANGEROUS_EXTENSIONS = [
    ''exe'', ''scr'', ''bat'', ''cmd'', ''ps1'', ''vbs'', ''wsf'', ''hta'', ''jar'', ''msi'', ''msp'',
    ''reg'', ''dll'', ''pif'', ''com'', ''cpl'', ''inf'', ''apk'', ''ipa'', ''dmg'', ''pkg'', ''deb'', ''rpm'']"

text \<open>The keyword sets that \<open>extract_features\<close> builds and iterates.\<close>

definition login_kw :: "string list" where
  "login_kw = [''login'', ''signin'', ''sign-in'', ''account'', ''verify'', ''auth'', ''authenticate'',
               ''confirm'', ''update'']"

definition trust_kw :: "string list" where
  "trust_kw = [''secure'', ''safe'', ''trust'', ''bank'', ''protected'', ''official'', ''helpdesk'']"

definition pay_kw :: "string list" where
  "pay_kw = [''pay'', ''payment'', ''wallet'', ''upi'', ''gpay'', ''paytm'', ''bhim'', ''razorpay'',
             ''phonepay'']"

definition free_kw :: "string list" where
  "free_kw = [''free'', ''bonus'', ''prize'', ''winner'', ''giveaway'', ''reward'', ''claim'', ''gift'',
              ''lucky'', ''congratulations'']"

definition fraud_kw :: "string list" where
  "fraud_kw = [''kyc'', ''refund'', ''tax'', ''block'', ''suspend'', ''urgent'', ''helpdesk'', ''support'',
               ''care'', ''alert'']"

definition fraud_pfx :: "string list" where
  "fraud_pfx = [''refund'', ''tax'', ''prize'', ''block'', ''kyc'', ''urgent'', ''helpdesk'', ''support'',
                ''care'']"

section \<open>Math helpers\<close>

text \<open>
  A \<open>dict\<close> keeps its keys in the order of their first insertion: an association list,
  read with \<open>get\<close> and written with an item assignment.
\<close>

definition dict_get :: "('k \<times> 'v) list \<Rightarrow> 'k \<Rightarrow> 'v \<Rightarrow> 'v" where
  "dict_get d k dflt = (case map_of d k of None \<Rightarrow> dflt | Some v \<Rightarrow> v)"

definition dict_set :: "('k \<times> 'v) list \<Rightarrow> 'k \<Rightarrow> 'v \<Rightarrow> ('k \<times> 'v) list" where
  "dict_set d k v =
     (if k \<in> fst ` set d then map (\<lambda>(k', v'). if k' = k then (k', v) else (k', v')) d
      else d @ [(k, v)])"

definition count_freq :: "'k list \<Rightarrow> ('k \<times> nat) list" where
  \<comment> \<open>\<open>for c in s: freq[c] = freq.get(c, 0) + 1\<close>\<close>
  "count_freq s = foldl (\<lambda>freq c. dict_set freq c (dict_get freq c 0 + 1)) [] s"

definition entropy_sum :: "nat list \<Rightarrow> nat \<Rightarrow> real option" where
  \<comment> \<open>\<open>-sum((f / n) * math.log2(f / n) for f in values)\<close>\<close>
  "entropy_sum fs n = do {
     terms \<leftarrow> mapM (\<lambda>f. do { p \<leftarrow> truediv (real f) (real n);
                                q \<leftarrow> truediv (real f) (real n);
                                l \<leftarrow> log2 q;
                                Some (p * l) }) fs;
     Some (- sum_list terms) }"

definition shannon_entropy :: "string \<Rightarrow> real option" where
  "shannon_entropy s =
     (if s = [] then Some 0
      else (let freq = count_freq s; n = length s in entropy_sum (map snd freq) n))"

definition min_brand_distance :: "string \<Rightarrow> nat option" where
  "min_brand_distance domain = do {
     first \<leftarrow> getitem (str_split CHR ''.'' domain) 0;
     let core = str_lower first;
     ds \<leftarrow> mapM (\<lambda>b. levenshtein core b) BRANDS;
     py_min ds }"

definition max_consecutive_consonants :: "string \<Rightarrow> nat" where
  "max_consecutive_consonants s =
     fst (foldl (\<lambda>(max_run, cur) c.
                   if isalpha c \<and> c \<notin> set ''aeiou'' then (max max_run (cur + 1), cur + 1)
                   else (max_run, 0))
                (0, 0) (str_lower s))"

definition char_ngram_entropy :: "string \<Rightarrow> nat \<Rightarrow> real option" where
  "char_ngram_entropy s n =
     (if length s < n then Some 0
      else (let ngrams = map (\<lambda>i. take n (drop i s)) [0..<length s - n + 1];
                freq = count_freq ngrams;
                total = length ngrams
            in entropy_sum (map snd freq) total))"

section \<open>The patterns of the re module\<close>

text \<open>
  The patterns of the module, as terms.  \<open>Rep P lo hi\<close> is a greedy repetition of a class
  of characters, \<open>Grp\<close> is the capturing group whose text is read (group 1), \<open>WordB\<close> is
  \<open>\b\<close> and \<open>Eol\<close> is \<open>$\<close>.  The matcher returns every way a pattern matches at the
  start of the text, in the order in which the backtracking matcher of \<open>re\<close> tries them:
  the head of the list is the match \<open>re\<close> reports.  A state is the character before the
  position, the text from the position on, and the text of group 1.
\<close>

datatype regex =
    Eps
  | Cls "char \<Rightarrow> bool"
  | Rep "char \<Rightarrow> bool" nat "nat option"
  | Seq regex regex
  | Alt regex regex
  | Grp regex
  | WordB
  | Eol

type_synonym rstate = "char option \<times> string \<times> string option"

definition word_at :: "char option \<Rightarrow> bool" where
  "word_at c = (case c of None \<Rightarrow> False | Some x \<Rightarrow> isword x)"

definition first_chr :: "string \<Rightarrow> char option" where
  "first_chr s = (case s of [] \<Rightarrow> None | c # _ \<Rightarrow> Some c)"

fun rmatch :: "regex \<Rightarrow> rstate \<Rightarrow> rstate list" where
  "rmatch Eps st = [st]"
| "rmatch (Cls P) (p, s, g) =
     (case s of [] \<Rightarrow> [] | c # cs \<Rightarrow> if P c then [(Some c, cs, g)] else [])"
| "rmatch (Rep P lo hi) (p, s, g) =
     (let n = length (takeWhile P s);
          m = (case hi of None \<Rightarrow> n | Some h \<Rightarrow> min n h)
      in map (\<lambda>k. (if k = 0 then p else Some (s ! (k - 1)), drop k s, g)) (rev [lo..<Suc m]))"
| "rmatch (Seq a b) st = concat (map (rmatch b) (rmatch a st))"
| "rmatch (Alt a b) st = rmatch a st @ rmatch b st"
| "rmatch (Grp r) (p, s, g) =
     map (\<lambda>(p', s', g'). (p', s', Some (take (length s - length s') s))) (rmatch r (p, s, g))"
| "rmatch WordB (p, s, g) = (if word_at p \<noteq> word_at (first_chr s) then [(p, s, g)] else [])"
| "rmatch Eol (p, s, g) = (if s = [] \<or> s = [CHR 0x0A] then [(p, s, g)] else [])"

fun Lit :: "string \<Rightarrow> regex" where
  \<comment> \<open>the characters of a string, literally\<close>
  "Lit [] = Eps"
| "Lit (c # cs) = Seq (Cls (\<lambda>x. x = c)) (Lit cs)"

fun LitI :: "string \<Rightarrow> regex" where
  \<comment> \<open>the characters of a string under \<open>re.I\<close>\<close>
  "LitI [] = Eps"
| "LitI (c # cs) = Seq (Cls (\<lambda>x. lower_chr x = lower_chr c)) (LitI cs)"

fun Seqs :: "regex list \<Rightarrow> regex" where
  "Seqs [] = Eps"
| "Seqs (r # rs) = Seq r (Seqs rs)"

fun Alts :: "regex list \<Rightarrow> regex" where
  "Alts [] = Cls (\<lambda>x. False)"
| "Alts [r] = r"
| "Alts (r # rs) = Alt r (Alts rs)"

fun search_from :: "regex \<Rightarrow> char option \<Rightarrow> string \<Rightarrow> (string \<times> string option) option" where
  \<comment> \<open>the leftmost match from here on: its text (group 0) and group 1\<close>
  "search_from r p [] =
     (case rmatch r (p, [], None) of [] \<Rightarrow> None | (q, rest, g) # _ \<Rightarrow> Some ([], g))"
| "search_from r p (c # cs) =
     (case rmatch r (p, c # cs, None) of
        (q, rest, g) # _ \<Rightarrow> Some (take (length (c # cs) - length rest) (c # cs), g)
      | [] \<Rightarrow> search_from r (Some c) cs)"

definition re_search :: "regex \<Rightarrow> string \<Rightarrow> (string \<times> string option) option" where
  "re_search r s = search_from r None s"

definition re_fullmatch :: "regex \<Rightarrow> string \<Rightarrow> bool" where
  "re_fullmatch r s = list_ex (\<lambda>(q, rest, g). rest = []) (rmatch r (None, s, None))"

fun finditer_from :: "regex \<Rightarrow> char option \<Rightarrow> string \<Rightarrow> nat \<Rightarrow> string list" where
  \<comment> \<open>the matches from left to right, none overlapping the one before: \<open>skip\<close> is the
      number of characters still inside the last match.  (No pattern that the module
      scans with matches the empty string.)\<close>
  "finditer_from r p [] skip = []"
| "finditer_from r p (c # cs) skip =
     (if 0 < skip then finditer_from r (Some c) cs (skip - 1)
      else (case rmatch r (p, c # cs, None) of
              [] \<Rightarrow> finditer_from r (Some c) cs 0
            | (q, rest, g) # _ \<Rightarrow>
                (let m = take (length (c # cs) - length rest) (c # cs)
                 in m # finditer_from r (Some c) cs (length m - 1))))"

definition re_finditer :: "regex \<Rightarrow> string \<Rightarrow> string list" where
  \<comment> \<open>the texts of the matches of \<open>finditer\<close> and of \<open>findall\<close>\<close>
  "re_finditer r s = finditer_from r None s 0"

definition ascii_alpha :: "char \<Rightarrow> bool" where
  \<comment> \<open>\<open>[a-zA-Z]\<close>\<close>
  "ascii_alpha c = (let n = code_point c in (65 \<le> n \<and> n \<le> 90) \<or> (97 \<le> n \<and> n \<le> 122))"

definition ascii_alnum :: "char \<Rightarrow> bool" where
  \<comment> \<open>\<open>[a-zA-Z0-9]\<close>\<close>
  "ascii_alnum c = (ascii_alpha c \<or> isdecimal c)"

definition hex_chr :: "char \<Rightarrow> bool" where
  \<comment> \<open>\<open>[0-9a-fA-F]\<close>\<close>
  "hex_chr c = (let n = code_point c in
     (48 \<le> n \<and> n \<le> 57) \<or> (97 \<le> n \<and> n \<le> 102) \<or> (65 \<le> n \<and> n \<le> 70))"

definition hex_lower_chr :: "char \<Rightarrow> bool" where
  \<comment> \<open>\<open>[a-f0-9]\<close>\<close>
  "hex_lower_chr c = (let n = code_point c in (97 \<le> n \<and> n \<le> 102) \<or> (48 \<le> n \<and> n \<le> 57))"

definition ip_re :: regex where
  \<comment> \<open>\<open>\b(?:\d{1,3}\.){3}\d{1,3}\b\<close>\<close>
  "ip_re = (let grp = Seq (Rep isdecimal 1 (Some 3)) (Lit ''.'')
            in Seqs [WordB, grp, grp, grp, Rep isdecimal 1 (Some 3), WordB])"

definition dbl_re :: regex where
  \<comment> \<open>\<open>\.(pdf|doc|jpg|jpeg|png|gif|mp4|zip)\.(exe|js|php|bat|ps1|vbs|cmd|scr)\<close>, \<open>re.I\<close>\<close>
  "dbl_re = Seqs [Lit ''.'',
                  Alts (map LitI [''pdf'', ''doc'', ''jpg'', ''jpeg'', ''png'', ''gif'', ''mp4'', ''zip'']),
                  Lit ''.'',
                  Alts (map LitI [''exe'', ''js'', ''php'', ''bat'', ''ps1'', ''vbs'', ''cmd'', ''scr''])]"

definition pct_re :: regex where
  \<comment> \<open>\<open>%[0-9a-fA-F]{2}\<close>\<close>
  "pct_re = Seq (Lit ''%'') (Rep hex_chr 2 (Some 2))"

definition numeric_re :: regex where
  \<comment> \<open>\<open>[\d.]+\<close>\<close>
  "numeric_re = Rep (\<lambda>c. isdecimal c \<or> c = CHR ''.'') 1 None"

definition b64_re :: regex where
  \<comment> \<open>\<open>[A-Za-z0-9+/]{20,}={0,2}\<close>\<close>
  "b64_re = Seq (Rep (\<lambda>c. ascii_alnum c \<or> c = CHR ''+'' \<or> c = CHR ''/'') 20 None)
                (Rep (\<lambda>c. c = CHR ''='') 0 (Some 2))"

definition upi_re :: regex where
  \<comment> \<open>\<open>[a-zA-Z0-9._-]+@[a-zA-Z]+\<close>\<close>
  "upi_re = Seqs [Rep (\<lambda>c. ascii_alnum c \<or> c = CHR ''.'' \<or> c = CHR ''_'' \<or> c = CHR ''-'') 1 None,
                  Lit ''@'',
                  Rep ascii_alpha 1 None]"

definition collect_re :: regex where
  \<comment> \<open>\<open>upi://pay|pa=.*@|vpa=\<close>; the dot matches all but the line feed\<close>
  "collect_re = Alts [Lit ''upi://pay'',
                      Seqs [Lit ''pa='', Rep (\<lambda>c. c \<noteq> CHR 0x0A) 0 None, Lit ''@''],
                      Lit ''vpa='']"

definition ext_re :: regex where
  \<comment> \<open>\<open>\.([a-zA-Z0-9]{1,5})(?:[?#]|$)\<close>\<close>
  "ext_re = Seqs [Lit ''.'', Grp (Rep ascii_alnum 1 (Some 5)),
                  Alt (Cls (\<lambda>c. c = CHR ''?'' \<or> c = CHR ''#'')) Eol]"

definition admin_re :: regex where
  \<comment> \<open>\<open>/(wp-admin|admin|phpmyadmin|cgi-bin)/\<close>\<close>
  "admin_re = Seqs [Lit ''/'',
                    Alts [Lit ''wp-admin'', Lit ''admin'', Lit ''phpmyadmin'', Lit ''cgi-bin''],
                    Lit ''/'']"

definition redirect_re :: regex where
  \<comment> \<open>\<open>(redirect|returnurl|continue|next|goto|url)=http\<close>, \<open>re.I\<close>\<close>
  "redirect_re = Seqs [Alts (map LitI [''redirect'', ''returnurl'', ''continue'', ''next'', ''goto'', ''url'']),
                       LitI ''=http'']"

definition hex_re :: regex where
  \<comment> \<open>\<open>[a-f0-9]{32,}\<close>\<close>
  "hex_re = Rep hex_lower_chr 32 None"

section \<open>extract_features\<close>

definition flag :: "bool \<Rightarrow> real" where
  \<comment> \<open>\<open>1.0 if b else 0.0\<close>\<close>
  "flag b = (if b then 1 else 0)"

fun upi_loop :: "pyenv \<Rightarrow> string list \<Rightarrow> real option" where
  \<comment> \<open>the loop over the matches of \<open>upi_re\<close>, with its \<open>break\<close>; \<open>pfx\<close> is the
      variable \<open>prefix\<close> of the source\<close>
  "upi_loop env [] = Some 0"
| "upi_loop env (m # ms) = do {
     h \<leftarrow> getlast (str_split CHR ''@'' m);
     let handle = str_lower h;
     l \<leftarrow> getitem (str_split CHR ''@'' m) 0;
     let pfx = str_lower l;
     if handle \<notin> set LEGIT_UPI_HANDLES \<or> list_ex (\<lambda>fp. str_in fp pfx) (iter_set env fraud_pfx)
     then Some 1 else upi_loop env ms }"

definition max_default :: "nat list \<Rightarrow> nat \<Rightarrow> nat" where
  \<comment> \<open>\<open>max(iterable, default=d)\<close>\<close>
  "max_default xs d = (case xs of [] \<Rightarrow> d | y # ys \<Rightarrow> fold max ys y)"

definition extract_features :: "pyenv \<Rightarrow> string \<Rightarrow> real list option" where
  "extract_features env url = do {
     let p = parse_url_parts env url;
     let host = host p;
     let path = path p;
     let query = query p;
     let tld = tld p;
     let domain = registered_domain p;
     let sub = subdomain p;
     let low = str_lower url;
     let f = replicate 56 (0::real);
     f \<leftarrow> setitem f 0 (real (length url));
     f \<leftarrow> setitem f 1 (real (length host));
     f \<leftarrow> setitem f 2 (real (length path));
     f \<leftarrow> setitem f 3 (real (length query));
     f \<leftarrow> setitem f 4 (real (count_list url CHR ''.''));
     f \<leftarrow> setitem f 5 (real (count_list url CHR ''-''));
     f \<leftarrow> setitem f 6 (real (count_list url CHR ''_''));
     no_proto \<leftarrow> (if str_in ''//'' url then getlast (str_split1 ''//'' url) else Some url);
     f \<leftarrow> setitem f 7 (real (count_list no_proto CHR ''/''));
     f \<leftarrow> setitem f 8 (real (count_list url CHR ''@''));
     let digits = length (filter isdigit url);
     f \<leftarrow> setitem f 9 (real digits);
     r \<leftarrow> truediv (real digits) (real (max (length url) 1));
     f \<leftarrow> setitem f 10 r;
     f \<leftarrow> setitem f 11 (flag (scheme p = ''https''));
     f \<leftarrow> setitem f 12 (flag (re_search ip_re host \<noteq> None));
     f \<leftarrow> setitem f 13 (flag (str_in ''xn--'' host));
     f \<leftarrow> setitem f 14 (real_of_int (max (int (length (labels p)) - 2) 0));
     f \<leftarrow> setitem f 15 (flag (case port p of None \<Rightarrow> False
                                 | Some n \<Rightarrow> n \<notin> {80, 443, 8080, 8443}));
     e \<leftarrow> shannon_entropy url;
     f \<leftarrow> setitem f 16 e;
     e \<leftarrow> shannon_entropy host;
     f \<leftarrow> setitem f 17 e;
     e \<leftarrow> shannon_entropy path;
     f \<leftarrow> setitem f 18 e;
     e \<leftarrow> char_ngram_entropy host 2;
     f \<leftarrow> setitem f 19 e;
     e \<leftarrow> char_ngram_entropy host 3;
     f \<leftarrow> setitem f 20 e;
     min_dist \<leftarrow> min_brand_distance domain;
     f \<leftarrow> setitem f 21 (flag (0 < min_dist \<and> min_dist \<le> 2));
     r \<leftarrow> truediv (real (min min_dist 10)) 10;
     f \<leftarrow> setitem f 22 r;
     let brand_sub = list_ex (\<lambda>b. str_in b sub) BRANDS;
     core \<leftarrow> getitem (str_split CHR ''.'' domain) 0;
     let brand_reg = list_ex (\<lambda>b. str_in b core) BRANDS;
     f \<leftarrow> setitem f 23 (flag (brand_sub \<and> \<not> brand_reg));
     f \<leftarrow> setitem f 24 (flag (list_ex (\<lambda>k. str_in k low) (iter_set env login_kw)));
     f \<leftarrow> setitem f 25 (flag (list_ex (\<lambda>k. str_in k host) (iter_set env trust_kw)));
     f \<leftarrow> setitem f 26 (flag (list_ex (\<lambda>k. str_in k low) (iter_set env pay_kw)));
     f \<leftarrow> setitem f 27 (flag (list_ex (\<lambda>k. str_in k low) (iter_set env free_kw)));
     f \<leftarrow> setitem f 28 (flag (list_ex (\<lambda>k. str_in k low) (iter_set env fraud_kw)));
     let all_kw = iter_set env (login_kw @ trust_kw @ pay_kw @ free_kw @ fraud_kw);
     let hits = length (filter (\<lambda>k. str_in k low) all_kw);
     r \<leftarrow> truediv (real hits) 6;
     f \<leftarrow> setitem f 29 (min r 1);
     f \<leftarrow> setitem f 30 (flag (CHR ''-'' \<in> set host));
     f \<leftarrow> setitem f 31 (flag (re_search dbl_re path \<noteq> None));
     let pct_count = length (re_finditer pct_re url);
     r \<leftarrow> truediv (real pct_count) (real (max (length url) 1));
     f \<leftarrow> setitem f 32 r;
     third \<leftarrow> truediv (real (length url)) 3;
     r \<leftarrow> truediv (real pct_count) (max third 1);
     f \<leftarrow> setitem f 33 (min r 1);
     f \<leftarrow> setitem f 34 (real (if query \<noteq> [] then length (str_split CHR ''&'' query) else 0));
     f \<leftarrow> setitem f 35 (flag (fragment p \<noteq> []));
     f \<leftarrow> setitem f 36 (flag (prefix ''data:'' low));
     f \<leftarrow> setitem f 37 (flag (str_in ''..'' path \<or> str_in ''%2e%2e'' low));
     f \<leftarrow> setitem f 38 (flag (tld \<in> set SUSPICIOUS_TLDS));
     f \<leftarrow> setitem f 39 (real (length tld));
     f \<leftarrow> setitem f 40 (flag (sub \<noteq> []));
     f \<leftarrow> setitem f 41 (flag (re_fullmatch numeric_re host));
     r \<leftarrow> truediv (real (length (remdups url))) (real (max (length url) 1));
     f \<leftarrow> setitem f 42 r;
     let vowels = length (filter (\<lambda>c. c \<in> set ''aeiou'') host);
     let alpha = length (filter isalpha host);
     r \<leftarrow> truediv (real vowels) (real (max alpha 1));
     f \<leftarrow> setitem f 43 r;
     f \<leftarrow> setitem f 44 (real (max_consecutive_consonants host));
     f \<leftarrow> setitem f 45 (flag (domain \<in> set SHORT_URL_SERVICES));
     f \<leftarrow> setitem f 46 (flag (re_search b64_re query \<noteq> None));
     f \<leftarrow> setitem f 47 (real (count_list path CHR ''/''));
     f \<leftarrow> setitem f 48 (flag (re_search upi_re url \<noteq> None));
     suspicious_upi \<leftarrow> upi_loop env (re_finditer upi_re url);
     f \<leftarrow> setitem f 49 suspicious_upi;
     f \<leftarrow> setitem f 50 (flag (re_search collect_re low \<noteq> None));
     let ext_m = re_search ext_re path;
     ext \<leftarrow> (case ext_m of None \<Rightarrow> Some ''''
                        | Some (m, None) \<Rightarrow> None
                        | Some (m, Some g) \<Rightarrow> Some (str_lower g));
     f \<leftarrow> setitem f 51 (flag (ext \<in> set DANGEROUS_EXTENSIONS));
     f \<leftarrow> setitem f 52 (flag (re_search admin_re low \<noteq> None));
     f \<leftarrow> setitem f 53 (flag (re_search redirect_re low \<noteq> None));
     let max_rep = max_default (map (\<lambda>ch. length (filter (\<lambda>c. c = ch) host))
                                    (iter_chars env host)) 0;
     r \<leftarrow> truediv (real max_rep) (real (max (length host) 1));
     f \<leftarrow> setitem f 54 r;
     f \<leftarrow> setitem f 55 (flag (re_search hex_re low \<noteq> None));
     Some f }"

definition FEATURE_NAMES :: "string list" where
  "FEATURE_NAMES = [
    ''url_length'', ''domain_length'', ''path_length'', ''query_length'',
    ''dot_count'', ''hyphen_count'', ''underscore_count'', ''slash_count'',
    ''at_count'', ''digit_count'', ''digit_ratio'', ''is_https'',
    ''ip_in_url'', ''is_punycode'', ''subdomain_depth'', ''port_anomaly'',
    ''url_entropy'', ''domain_entropy'', ''path_entropy'',
    ''domain_bigram_entropy'', ''domain_trigram_entropy'',
    ''brand_spoof_flag'', ''brand_distance_norm'', ''brand_in_subdomain_only'',
    ''has_login_kw'', ''has_trust_kw_in_domain'', ''has_payment_kw'',
    ''has_free_kw'', ''has_fraud_kw'', ''keyword_density'', ''hyphen_in_domain'',
    ''double_extension'', ''pct_encoding_ratio'', ''heavy_encoding'',
    ''query_param_count'', ''has_fragment'', ''is_data_uri'', ''path_traversal'',
    ''suspicious_tld'', ''tld_length'', ''has_subdomain'', ''numeric_domain'',
    ''url_compression_ratio'', ''vowel_ratio'', ''max_consonant_run'',
    ''is_short_url'', ''base64_in_query'', ''path_depth'',
    ''upi_vpa_present'', ''suspicious_upi_vpa'', ''upi_collect_request'',
    ''dangerous_extension'', ''admin_path'', ''open_redirect'',
    ''max_char_repeat_ratio'', ''hex_token_in_url'']"

section \<open>Reference definitions\<close>

text \<open>
  The entropy as the specification writes it, \<open>H = -\<Sigma> p(c) log\<^sub>2 p(c)\<close> over the
  distinct elements \<open>c\<close> of a sequence, with \<open>p(c)\<close> the relative frequency of \<open>c\<close>.
\<close>

definition rel_freq :: "'a list \<Rightarrow> 'a \<Rightarrow> real" where
  "rel_freq xs c = real (count_list xs c) / real (length xs)"

definition entropy_spec :: "'a list \<Rightarrow> real" where
  "entropy_spec xs = - (\<Sum>c\<in>set xs. rel_freq xs c * log 2 (rel_freq xs c))"

definition ngrams :: "string \<Rightarrow> nat \<Rightarrow> string list" where
  \<comment> \<open>all contiguous substrings of length \<open>n\<close>\<close>
  "ngrams s n = map (\<lambda>i. take n (drop i s)) [0..<length s - n + 1]"

text \<open>
  The distance to the brand list as the specification writes it: the least edit
  distance from the lowercased first label of the domain to a brand.
\<close>

definition domain_core :: "string \<Rightarrow> string" where
  "domain_core domain = str_lower (hd (str_split CHR ''.'' domain))"

definition brand_distance :: "string \<Rightarrow> nat" where
  "brand_distance domain = Min ((\<lambda>b. edit_distance (domain_core domain) b) ` set BRANDS)"

text \<open>
  A match of the VPA pattern is suspicious when its handle, lowercased, is not a
  legitimate handle, or its local part, lowercased, contains a fraud token.
\<close>

definition vpa_handle :: "string \<Rightarrow> string" where
  "vpa_handle m = last (str_split CHR ''@'' m)"

definition vpa_local :: "string \<Rightarrow> string" where
  "vpa_local m = hd (str_split CHR ''@'' m)"

definition suspicious_vpa :: "string \<Rightarrow> bool" where
  "suspicious_vpa m \<longleftrightarrow>
     str_lower (vpa_handle m) \<notin> set LEGIT_UPI_HANDLES
     \<or> (\<exists>fp\<in>set fraud_pfx. str_in fp (str_lower (vpa_local m)))"

text \<open>The extension that \<open>extract_features\<close> reads off the path.\<close>

definition file_ext :: "string \<Rightarrow> string" where
  "file_ext s = (case re_search ext_re s of Some (m, Some g) \<Rightarrow> str_lower g | _ \<Rightarrow> '''')"

text \<open>The indices of the vector by the shape of their values.\<close>

definition binary_features :: "nat list" where
  "binary_features = [11, 12, 13, 15, 21, 23, 24, 25, 26, 27, 28, 30, 31, 35, 36, 37, 38, 40, 41,
                      45, 46, 48, 49, 50, 51, 52, 53, 55]"

definition count_features :: "nat list" where
  "count_features = [0, 1, 2, 3, 4, 5, 6, 7, 8, 9, 14, 34, 39, 44, 47]"

definition ratio_features :: "nat list" where
  \<comment> \<open>digit_ratio, brand_distance_norm, keyword_density, pct_encoding_ratio, heavy_encoding,
      url_compression_ratio, vowel_ratio, max_char_repeat_ratio\<close>
  "ratio_features = [10, 22, 29, 32, 33, 42, 43, 54]"

definition entropy_features :: "nat list" where
  "entropy_features = [16, 17, 18, 19, 20]"

section \<open>Properties of levenshtein\<close>

subsection \<open>The edit distance is a metric\<close>

lemma edit_distance_Nil2 [simp]: "edit_distance xs [] = length xs"
  by (cases xs) simp_all

lemma edit_distance_sym: "edit_distance xs ys = edit_distance ys xs"
  by (induction xs ys rule: edit_distance.induct) (simp_all add: min.commute min.left_commute eq_commute)

lemma edit_distance_refl [simp]: "edit_distance xs xs = 0"
  by (induction xs) simp_all

lemma edit_distance_zero: "edit_distance xs ys = 0 \<Longrightarrow> xs = ys"
  by (induction xs ys rule: edit_distance.induct) (auto split: if_splits simp: min_def)

lemma edit_distance_zero_iff: "edit_distance xs ys = 0 \<longleftrightarrow> xs = ys"
  using edit_distance_zero by auto

lemma edit_distance_Cons1: "edit_distance (x # xs) ys \<le> edit_distance xs ys + 1"
proof (induction ys)
  case Nil
  show ?case by simp
next
  case (Cons y ys)
  show ?case by simp
qed

lemma edit_distance_Cons2: "edit_distance xs (y # ys) \<le> edit_distance xs ys + 1"
  using edit_distance_Cons1 [of y ys xs] by (simp add: edit_distance_sym)

lemma edit_distance_length_le: "length ys \<le> length xs + edit_distance xs ys"
  by (induction xs ys rule: edit_distance.induct) (auto simp: min_def)

lemma edit_distance_triangle:
  "edit_distance xs zs \<le> edit_distance xs ys + edit_distance ys zs"
proof (induction "length xs + length ys + length zs" arbitrary: xs ys zs rule: less_induct)
  case less
  show ?case
  proof (cases xs)
    case Nil
    then show ?thesis using edit_distance_length_le [of zs ys] by simp
  next
    case xs: (Cons x xs')
    show ?thesis
    proof (cases zs)
      case Nil
      then show ?thesis
        using edit_distance_length_le [of xs ys] by (simp add: edit_distance_sym)
    next
      case zs: (Cons z zs')
      show ?thesis
      proof (cases ys)
        case Nil
        have "edit_distance xs zs \<le> length xs + length zs"
          by (induction xs zs rule: edit_distance.induct) (auto simp: min_def)
        with Nil show ?thesis by simp
      next
        case ys: (Cons y ys')
        let ?d = edit_distance
        have del: "?d xs zs \<le> ?d xs' zs + 1"
          unfolding xs by (rule edit_distance_Cons1)
        have ins: "?d xs zs \<le> ?d xs zs' + 1"
          unfolding zs by (rule edit_distance_Cons2)
        have sub: "?d xs zs \<le> ?d xs' zs' + (if x = z then 0 else 1)"
          unfolding xs zs by simp
        have t1: "?d xs' zs \<le> ?d xs' ys + ?d ys zs"
          by (rule less) (simp add: xs)
        have t2: "?d xs zs' \<le> ?d xs ys + ?d ys zs'"
          by (rule less) (simp add: zs)
        have t3: "?d xs zs \<le> ?d xs ys' + ?d ys' zs"
          by (rule less) (simp add: ys)
        have t4: "?d xs zs' \<le> ?d xs ys' + ?d ys' zs'"
          by (rule less) (simp add: ys zs)
        have t5: "?d xs' zs \<le> ?d xs' ys' + ?d ys' zs"
          by (rule less) (simp add: xs ys)
        have t6: "?d xs' zs' \<le> ?d xs' ys' + ?d ys' zs'"
          by (rule less) (simp add: xs ys zs)
        have A: "?d xs ys = ?d xs' ys + 1 \<or> ?d xs ys = ?d xs ys' + 1
                 \<or> ?d xs ys = ?d xs' ys' + (if x = y then 0 else 1)"
          unfolding xs ys by (simp add: min_def)
        have B: "?d ys zs = ?d ys' zs + 1 \<or> ?d ys zs = ?d ys zs' + 1
                 \<or> ?d ys zs = ?d ys' zs' + (if y = z then 0 else 1)"
          unfolding ys zs by (simp add: min_def)
        from A B del ins sub t1 t2 t3 t4 t5 t6 show ?thesis
          by (auto split: if_splits)
      qed
    qed
  qed
qed

subsection \<open>The edit distance of the reversed strings\<close>

lemma min_terms_5:
  fixes n :: nat
  shows "min (n + 3) (min (min (n + 2) (min (E + 1) (n + c)) + 1) (n + 1 + d))
       = min (n + 1 + 2) (min (min (n + 2) (min (E + 1) (n + d)) + 1) (n + 1 + c))"
  by linarith

lemma min_terms_9:
  fixes p1 :: nat
  shows "min (min (p1 + 1) (min (q1 + 1) (r1 + c)) + 1)
             (min (min (p2 + 1) (min (q2 + 1) (r2 + c)) + 1)
                  (min (p3 + 1) (min (q3 + 1) (r3 + c)) + k))
       = min (min (p1 + 1) (min (p2 + 1) (p3 + k)) + 1)
             (min (min (q1 + 1) (min (q2 + 1) (q3 + k)) + 1)
                  (min (r1 + 1) (min (r2 + 1) (r3 + k)) + c))"
  by (simp only: min_add_distrib_left)
     (simp only: min.assoc min.left_commute min.commute add.assoc add.commute add.left_commute)

lemma edit_distance_snoc_Nil:
  "edit_distance [x] (ys @ [y]) =
     min (length ys + 2)
         (min (edit_distance [x] ys + 1) (length ys + (if x = y then 0 else 1)))"
proof (induction ys)
  case Nil
  show ?case by simp
next
  case (Cons b ys)
  have L: "edit_distance [x] ((b # ys) @ [y]) =
      min (length ys + 3)
          (min (edit_distance [x] (ys @ [y]) + 1) (length ys + 1 + (if x = b then 0 else 1)))"
    by simp
  have R: "edit_distance [x] (b # ys) =
      min (length ys + 2) (min (edit_distance [x] ys + 1) (length ys + (if x = b then 0 else 1)))"
    by simp
  have len: "length (b # ys) = length ys + 1"
    by simp
  show ?case
    unfolding L R Cons len by (rule min_terms_5)
qed

lemma edit_distance_snoc:
  "edit_distance (xs @ [x]) (ys @ [y]) =
     min (edit_distance xs (ys @ [y]) + 1)
         (min (edit_distance (xs @ [x]) ys + 1) (edit_distance xs ys + (if x = y then 0 else 1)))"
proof (induction xs ys rule: edit_distance.induct)
  case (1 ys)
  show ?case using edit_distance_snoc_Nil [of x ys y] by simp
next
  case (2 a xs)
  have "edit_distance [y] ((a # xs) @ [x]) =
     min (length (a # xs) + 2)
         (min (edit_distance [y] (a # xs) + 1) (length (a # xs) + (if y = x then 0 else 1)))"
    by (rule edit_distance_snoc_Nil)
  moreover have "edit_distance ((a # xs) @ [x]) [y] = edit_distance [y] ((a # xs) @ [x])"
    "edit_distance (a # xs) [y] = edit_distance [y] (a # xs)"
    by (rule edit_distance_sym)+
  moreover have "(y = x) = (x = y)" by blast
  ultimately have "edit_distance ((a # xs) @ [x]) [y] =
     min (length (a # xs) + 2)
         (min (edit_distance (a # xs) [y] + 1) (length (a # xs) + (if x = y then 0 else 1)))"
    by presburger
  then show ?case
    by (simp only: append_Nil edit_distance_Nil2 length_append list.size)
next
  case (3 a xs b ys)
  let ?d = edit_distance
  have L: "?d ((a # xs) @ [x]) ((b # ys) @ [y]) =
      min (?d (xs @ [x]) ((b # ys) @ [y]) + 1)
          (min (?d ((a # xs) @ [x]) (ys @ [y]) + 1) (?d (xs @ [x]) (ys @ [y]) + (if a = b then 0 else 1)))"
    by simp
  have R1: "?d (a # xs) ((b # ys) @ [y]) =
      min (?d xs ((b # ys) @ [y]) + 1)
          (min (?d (a # xs) (ys @ [y]) + 1) (?d xs (ys @ [y]) + (if a = b then 0 else 1)))"
    by simp
  have R2: "?d ((a # xs) @ [x]) (b # ys) =
      min (?d (xs @ [x]) (b # ys) + 1)
          (min (?d ((a # xs) @ [x]) ys + 1) (?d (xs @ [x]) ys + (if a = b then 0 else 1)))"
    by simp
  have R3: "?d (a # xs) (b # ys) =
      min (?d xs (b # ys) + 1) (min (?d (a # xs) ys + 1) (?d xs ys + (if a = b then 0 else 1)))"
    by simp
  show ?case
    unfolding L "3.IH" R1 R2 R3 by (rule min_terms_9)
qed

lemma edit_distance_rev: "edit_distance (rev xs) (rev ys) = edit_distance xs ys"
proof (induction xs ys rule: edit_distance.induct)
  case (1 ys)
  show ?case by simp
next
  case (2 xs)
  show ?case by simp
next
  case (3 x xs y ys)
  have "edit_distance (rev (x # xs)) (rev (y # ys)) =
     min (edit_distance (rev xs) (rev (y # ys)) + 1)
         (min (edit_distance (rev (x # xs)) (rev ys) + 1)
              (edit_distance (rev xs) (rev ys) + (if x = y then 0 else 1)))"
    using edit_distance_snoc [of "rev xs" x "rev ys" y] by simp
  then show ?case
    unfolding "3.IH" by simp
qed

subsection \<open>The loops compute the edit distance\<close>

lemma getitem_Some [simp]: "i < length xs \<Longrightarrow> getitem xs i = Some (xs ! i)"
  by (simp add: getitem_def)

lemma setitem_Some [simp]: "i < length xs \<Longrightarrow> setitem xs i v = Some (xs[i := v])"
  by (simp add: setitem_def)

lemma lev_cell_step:
  assumes "0 < i" "i \<le> length a" "0 < j" "j \<le> length b"
  shows "lev_cell a b i j =
         min (lev_cell a b (i - 1) j + 1)
             (min (lev_cell a b i (j - 1) + 1)
                  (lev_cell a b (i - 1) (j - 1) + (if a ! (i - 1) = b ! (j - 1) then 0 else 1)))"
proof -
  from assms obtain i' j' where ij: "i = Suc i'" "j = Suc j'" "i' < length a" "j' < length b"
    by (cases i; cases j) auto
  then show ?thesis
    by (simp add: take_Suc_conv_app_nth)
qed

lemma lev_inner_correct:
  assumes "0 < i" "i \<le> length a" "n \<le> length b" "length prev = n + 1"
    and "\<forall>k\<le>n. prev ! k = lev_cell a b (i - 1) k"
    and "length cur = n + 1" "0 < j" "j \<le> n + 1"
    and "\<forall>k<j. cur ! k = lev_cell a b i k"
  shows "\<exists>c. lev_inner a b i prev cur [j..<n + 1] = Some c \<and> length c = n + 1
             \<and> (\<forall>k\<le>n. c ! k = lev_cell a b i k)"
  using assms(6-9)
proof (induction "n + 1 - j" arbitrary: j cur)
  case 0
  then have "j = n + 1" by simp
  with 0 show ?case by simp
next
  case (Suc d)
  then have jn: "j \<le> n" by simp
  let ?v = "min (prev ! j + 1) (min (cur ! (j - 1) + 1)
              (prev ! (j - 1) + (if a ! (i - 1) = b ! (j - 1) then 0 else 1)))"
  let ?cur = "cur[j := ?v]"
  have "j - 1 \<le> n" "j - 1 < j"
    using jn Suc.prems(2) by simp_all
  then have p1: "prev ! j = lev_cell a b (i - 1) j"
    and p2: "prev ! (j - 1) = lev_cell a b (i - 1) (j - 1)"
    and c1: "cur ! (j - 1) = lev_cell a b i (j - 1)"
    using assms(5) jn Suc.prems(4) by blast+
  have "j \<le> length b"
    using jn assms(3) by simp
  then have v: "?v = lev_cell a b i j"
    unfolding p1 p2 c1 using lev_cell_step [OF assms(1,2) Suc.prems(2)] by presburger
  have upt: "[j..<n + 1] = j # [Suc j..<n + 1]"
    using jn by (intro upt_conv_Cons) simp
  have g: "getitem a (i - 1) = Some (a ! (i - 1))" "getitem b (j - 1) = Some (b ! (j - 1))"
    "getitem prev j = Some (prev ! j)" "getitem cur (j - 1) = Some (cur ! (j - 1))"
    "getitem prev (j - 1) = Some (prev ! (j - 1))" "setitem cur j ?v = Some ?cur"
    using assms(1-4) Suc.prems(1,2) jn by (simp_all add: getitem_def setitem_def)
  have step: "lev_inner a b i prev cur [j..<n + 1] = lev_inner a b i prev ?cur [Suc j..<n + 1]"
    unfolding upt lev_inner.simps g by (simp only: bind.bind_lunit Let_def g)
  have "?cur ! k = lev_cell a b i k" if "k < Suc j" for k
  proof (cases "k = j")
    case True
    have "j < length cur" using Suc.prems(1) jn by simp
    then have "?cur ! j = ?v" by (rule nth_list_update_eq)
    with v True show ?thesis by simp
  next
    case False
    with that have "k < j" by simp
    with Suc.prems(4) False show ?thesis by simp
  qed
  then have inv: "\<forall>k<Suc j. ?cur ! k = lev_cell a b i k"
    by blast
  have "\<exists>c. lev_inner a b i prev ?cur [Suc j..<n + 1] = Some c \<and> length c = n + 1
             \<and> (\<forall>k\<le>n. c ! k = lev_cell a b i k)"
  proof (rule Suc.hyps(1))
    show "d = n + 1 - Suc j" using Suc.hyps(2) by simp
    show "length ?cur = n + 1" using Suc.prems(1) by simp
    show "0 < Suc j" by simp
    show "Suc j \<le> n + 1" using jn by simp
    show "\<forall>k<Suc j. ?cur ! k = lev_cell a b i k" by (rule inv)
  qed
  then show ?case unfolding step .
qed

lemma lev_outer_correct:
  assumes "n \<le> length b" "m \<le> length a" "length prev = n + 1" "0 < i" "i \<le> m + 1"
    and "\<forall>k\<le>n. prev ! k = lev_cell a b (i - 1) k"
  shows "\<exists>r. lev_outer a b n prev [i..<m + 1] = Some r \<and> length r = n + 1
             \<and> (\<forall>k\<le>n. r ! k = lev_cell a b m k)"
  using assms(3-6)
proof (induction "m + 1 - i" arbitrary: i prev)
  case 0
  then have "i = m + 1" by simp
  with 0 show ?case by (simp del: upt_Suc)
next
  case (Suc d)
  then have im: "i \<le> m" by simp
  have "\<exists>c. lev_inner a b i prev (i # replicate n 0) [1..<n + 1] = Some c \<and> length c = n + 1
             \<and> (\<forall>k\<le>n. c ! k = lev_cell a b i k)"
    using lev_inner_correct [of i a n b prev "i # replicate n 0" 1] assms(1,2) Suc.prems im
    by (simp del: upt_Suc)
  then obtain c where c: "lev_inner a b i prev (i # replicate n 0) [1..<n + 1] = Some c"
    "length c = n + 1" "\<forall>k\<le>n. c ! k = lev_cell a b i k" by blast
  have "\<exists>r. lev_outer a b n c [Suc i..<m + 1] = Some r \<and> length r = n + 1
             \<and> (\<forall>k\<le>n. r ! k = lev_cell a b m k)"
    using Suc.hyps(1) [of "Suc i" c] Suc.hyps(2) c im by (simp del: upt_Suc)
  moreover have "[i..<m + 1] = i # [Suc i..<m + 1]"
    using im by (intro upt_conv_Cons) simp
  ultimately show ?case using c(1) by (simp del: upt_Suc)
qed

lemma levenshtein_cells: "levenshtein a b = Some (edit_distance (rev a) (rev b))"
proof -
  have main: "do { prev \<leftarrow> lev_outer x y (length y) [0..<length y + 1] [1..<length x + 1];
                   getitem prev (length y) } = Some (edit_distance (rev x) (rev y))" for x y
  proof -
    have "\<exists>r. lev_outer x y (length y) [0..<length y + 1] [1..<length x + 1] = Some r
             \<and> length r = length y + 1 \<and> (\<forall>k\<le>length y. r ! k = lev_cell x y (length x) k)"
      by (rule lev_outer_correct) (simp_all del: upt_Suc add: nth_upt)
    then show ?thesis by auto
  qed
  show ?thesis
    using main [of a b] main [of b a]
    by (simp add: levenshtein_def Let_def edit_distance_sym [of "rev b" "rev a"] del: upt_Suc)
qed

lemma levenshtein_edit_distance: "levenshtein a b = Some (edit_distance a b)"
  by (simp add: levenshtein_cells edit_distance_rev)

text \<open>
  Claim C6.  \<open>levenshtein\<close> always returns a number; it is symmetric, it is zero exactly
  when the two strings are equal, and it satisfies the triangle inequality for any three
  strings.
\<close>

theorem levenshtein_metric:
  "levenshtein a b = levenshtein b a
   \<and> (levenshtein a b = Some 0 \<longleftrightarrow> a = b)
   \<and> (\<exists>x y z. levenshtein a c = Some x \<and> levenshtein a b = Some y \<and> levenshtein b c = Some z
                \<and> x \<le> y + z)"
proof -
  have "edit_distance a b = edit_distance b a"
    by (rule edit_distance_sym)
  moreover have "edit_distance a b = 0 \<longleftrightarrow> a = b"
    by (rule edit_distance_zero_iff)
  moreover have "edit_distance a c \<le> edit_distance a b + edit_distance b c"
    by (rule edit_distance_triangle)
  ultimately show ?thesis
    by (simp add: levenshtein_edit_distance)
qed

theorem levenshtein_metric_witness:
  "levenshtein ''paypa1'' ''paypal'' = levenshtein ''paypal'' ''paypa1''
   \<and> levenshtein ''paypa1'' ''paypal'' \<noteq> Some 0
   \<and> (\<exists>x y z. levenshtein ''paypa1'' ''pay'' = Some x \<and> levenshtein ''paypa1'' ''paypal'' = Some y
                \<and> levenshtein ''paypal'' ''pay'' = Some z \<and> x \<le> y + z)"
proof -
  have "''paypa1'' \<noteq> ''paypal''" by simp
  with levenshtein_metric [of "''paypa1''" "''paypal''" "''pay''"] show ?thesis by blast
qed
section \<open>Properties of parse_url_parts\<close>

lemma str_split_not_Nil [simp]: "str_split sep s \<noteq> []"
  by (induction s) (auto split: list.splits)

lemma str_join_split: "str_join [sep] (str_split sep s) = s"
proof (induction s)
  case Nil
  show ?case by simp
next
  case (Cons c cs)
  show ?case
  proof (cases "c = sep")
    case True
    obtain w ws where "str_split sep cs = w # ws"
      by (cases "str_split sep cs") simp_all
    with True Cons show ?thesis by simp
  next
    case False
    obtain w ws where ws: "str_split sep cs = w # ws"
      by (cases "str_split sep cs") simp_all
    with False Cons show ?thesis by (cases ws) simp_all
  qed
qed

lemma str_join_append:
  "xs \<noteq> [] \<Longrightarrow> ys \<noteq> [] \<Longrightarrow> str_join sep (xs @ ys) = str_join sep xs @ sep @ str_join sep ys"
proof (induction sep xs rule: str_join.induct)
  case (1 sep)
  then show ?case by simp
next
  case (2 sep x)
  then show ?case by (cases ys) simp_all
next
  case (3 sep x y ys')
  then show ?case by simp
qed

lemma slice_last_two:
  "2 \<le> length xs \<Longrightarrow> slice_from xs (- 2) = drop (length xs - 2) xs"
  "2 \<le> length xs \<Longrightarrow> slice_to xs (- 2) = take (length xs - 2) xs"
  by (simp_all add: slice_from_def slice_to_def slice_index_def nat_diff_distrib')

lemma parse_try_fields:
  assumes "parse_try env url = Some p"
  shows "labels p = str_split CHR ''.'' (host p)"
    and "registered_domain p =
           (if 2 \<le> length (labels p) then str_join ''.'' (slice_from (labels p) (- 2)) else host p)"
    and "subdomain p =
           (if 2 < length (labels p) then str_join ''.'' (slice_to (labels p) (- 2)) else '''')"
  using assms
  by (auto simp: parse_try_def Let_def case_prod_beta bind_eq_Some_conv split del: if_split cong: if_cong)

lemma parse_url_parts_cases:
  obtains (parsed) p where "parse_try env url = Some p" "parse_url_parts env url = p"
  | (fallback) "parse_try env url = None" "parse_url_parts env url = parse_except url"
  by (cases "parse_try env url") (simp_all add: parse_url_parts_def)

lemma labels_rebuild:
  assumes "labels p = str_split CHR ''.'' (host p)" "2 < length (labels p)"
  shows "str_join ''.'' (take (length (labels p) - 2) (labels p)) @ ''.''
           @ str_join ''.'' (drop (length (labels p) - 2) (labels p)) = host p"
proof -
  let ?n = "length (labels p) - 2"
  have "take ?n (labels p) \<noteq> []" "drop ?n (labels p) \<noteq> []"
    using assms(2) by auto
  then have "str_join ''.'' (take ?n (labels p) @ drop ?n (labels p))
      = str_join ''.'' (take ?n (labels p)) @ ''.'' @ str_join ''.'' (drop ?n (labels p))"
    by (rule str_join_append)
  then show ?thesis
    using str_join_split [of "CHR ''.''" "host p"] assms(1) by simp
qed

text \<open>
  Claim C10.  For every input, with at most two labels (which includes the fallback of
  the exception branch) the subdomain is empty and the registered domain is the host;
  with more than two labels the subdomain, a dot and the registered domain make up the
  host.  So one of the two always holds, and the registered domain is a suffix of the
  host.
\<close>

theorem parse_url_parts_reconstruction:
  "(length (labels (parse_url_parts env url)) \<le> 2 \<longrightarrow>
      subdomain (parse_url_parts env url) = '''' \<and>
      registered_domain (parse_url_parts env url) = host (parse_url_parts env url))
   \<and> (2 < length (labels (parse_url_parts env url)) \<longrightarrow>
      subdomain (parse_url_parts env url) @ ''.'' @ registered_domain (parse_url_parts env url)
        = host (parse_url_parts env url))
   \<and> (parse_try env url = None \<longrightarrow>
      subdomain (parse_url_parts env url) = '''' \<and>
      registered_domain (parse_url_parts env url) = host (parse_url_parts env url))
   \<and> ((subdomain (parse_url_parts env url) = '''' \<and>
        registered_domain (parse_url_parts env url) = host (parse_url_parts env url))
       \<or> subdomain (parse_url_parts env url) @ ''.'' @ registered_domain (parse_url_parts env url)
            = host (parse_url_parts env url))
   \<and> suffix (registered_domain (parse_url_parts env url)) (host (parse_url_parts env url))"
proof (cases rule: parse_url_parts_cases [of env url])
  case (parsed p)
  note f = parse_try_fields [OF parsed(1)]
  have two: "registered_domain p = host p" if "length (labels p) = 2"
  proof -
    have "slice_from (labels p) (- 2) = labels p"
      using that by (simp add: slice_last_two)
    then show ?thesis
      using that f(1,2) str_join_split [of "CHR ''.''" "host p"] by simp
  qed
  have le2: "subdomain p = '''' \<and> registered_domain p = host p" if "length (labels p) \<le> 2"
  proof (cases "length (labels p) = 2")
    case True
    with two f(3) show ?thesis by simp
  next
    case False
    with that f(2,3) show ?thesis by simp
  qed
  have gt2: "subdomain p @ ''.'' @ registered_domain p = host p" if "2 < length (labels p)"
    using that f(2,3) labels_rebuild [OF f(1) that] by (simp add: slice_last_two)
  have "suffix (registered_domain p) (host p)"
  proof (cases "2 < length (labels p)")
    case True
    from gt2 [OF True] show ?thesis
      unfolding suffix_def by (metis append.assoc)
  next
    case False
    then have "registered_domain p = host p" using le2 by simp
    then show ?thesis by simp
  qed
  with le2 gt2 parsed show ?thesis
    by (cases "2 < length (labels p)") auto
next
  case fallback
  then show ?thesis by (simp add: parse_except_def)
qed

theorem parse_url_parts_reconstruction_witness:
  "subdomain (parse_url_parts default_env ''http://a.b.c.d/x'') @ ''.''
      @ registered_domain (parse_url_parts default_env ''http://a.b.c.d/x'')
     = host (parse_url_parts default_env ''http://a.b.c.d/x'')
   \<and> subdomain (parse_url_parts default_env ''http://a.b.c.d/x'') = ''a.b''
   \<and> registered_domain (parse_url_parts default_env ''http://a.b.c.d/x'') = ''c.d''
   \<and> suffix ''c.d'' (host (parse_url_parts default_env ''http://a.b.c.d/x''))"
proof -
  have p: "parse_url_parts default_env ''http://a.b.c.d/x'' =
      \<lparr>scheme = ''http'', host = ''a.b.c.d'', path = ''/x'', query = '''', fragment = '''',
       port = None, tld = ''d'', registered_domain = ''c.d'', subdomain = ''a.b'',
       labels = [''a'', ''b'', ''c'', ''d'']\<rparr>"
    by code_simp
  show ?thesis
    using parse_url_parts_reconstruction [of default_env "''http://a.b.c.d/x''"]
    unfolding p by simp
qed

section \<open>Properties of the entropies\<close>

lemma dict_set_map_fst:
  "map fst (map (\<lambda>(k', v'). if k' = k then (k', v) else (k', v')) d) = map fst d"
  by (induction d) (simp_all add: case_prod_beta)

lemma dict_set_keys: "fst ` set (dict_set d k v) = insert k (fst ` set d)"
proof (cases "k \<in> fst ` set d")
  case True
  have "fst ` set (map (\<lambda>(k', v'). if k' = k then (k', v) else (k', v')) d) = fst ` set d"
    using dict_set_map_fst [of k v d] by (metis set_map)
  with True show ?thesis by (simp add: dict_set_def insert_absorb)
next
  case False
  then show ?thesis by (simp add: dict_set_def)
qed

lemma dict_set_distinct: "distinct (map fst d) \<Longrightarrow> distinct (map fst (dict_set d k v))"
  by (cases "k \<in> fst ` set d") (simp_all add: dict_set_def dict_set_map_fst del: map_map)

lemma map_of_dict_set_upd:
  "map_of (map (\<lambda>(k', v'). if k' = k then (k', v) else (k', v')) d) x
     = (if x = k \<and> k \<in> fst ` set d then Some v else map_of d x)"
proof (induction d)
  case Nil
  show ?case by simp
next
  case (Cons e d)
  obtain a b where e: "e = (a, b)" by (cases e)
  show ?case
    unfolding e using Cons by (cases "a = k") (auto split: if_splits)
qed

lemma map_of_dict_set: "map_of (dict_set d k v) x = (if x = k then Some v else map_of d x)"
proof (cases "k \<in> fst ` set d")
  case True
  then show ?thesis by (simp add: dict_set_def map_of_dict_set_upd)
next
  case False
  then have "map_of d k = None"
    by (simp add: map_of_eq_None_iff)
  with False show ?thesis
    by (simp add: dict_set_def map_add_def split: option.splits)
qed

lemma dict_get_dict_set:
  "dict_get (dict_set d k v) x dflt = (if x = k then v else dict_get d x dflt)"
  by (simp add: dict_get_def map_of_dict_set)

lemma count_freq_step:
  fixes d :: "('k \<times> nat) list"
  assumes "distinct (map fst d)"
  shows "distinct (map fst (foldl (\<lambda>freq c. dict_set freq c (dict_get freq c 0 + 1)) d s))
    \<and> fst ` set (foldl (\<lambda>freq c. dict_set freq c (dict_get freq c 0 + 1)) d s) = fst ` set d \<union> set s
    \<and> (\<forall>c. dict_get (foldl (\<lambda>freq c. dict_set freq c (dict_get freq c 0 + 1)) d s) c 0
            = dict_get d c 0 + count_list s c)"
  using assms
proof (induction s arbitrary: d)
  case Nil
  then show ?case by simp
next
  case (Cons x s)
  let ?d = "dict_set d x (dict_get d x 0 + 1)"
  have "distinct (map fst ?d)"
    using Cons.prems by (rule dict_set_distinct)
  from Cons.IH [OF this] show ?case
    by (simp add: dict_set_keys dict_get_dict_set)
qed

lemma count_freq_props:
  "distinct (map fst (count_freq s))"
  "fst ` set (count_freq s) = set s"
  "dict_get (count_freq s) c 0 = count_list s c"
  using count_freq_step [of "[]" s] by (simp_all add: count_freq_def dict_get_def)

lemma map_of_count_freq:
  "c \<in> set s \<Longrightarrow> map_of (count_freq s) c = Some (count_list s c)"
proof -
  assume "c \<in> set s"
  then have "c \<in> fst ` set (count_freq s)"
    by (simp add: count_freq_props(2))
  then obtain v where v: "map_of (count_freq s) c = Some v"
    by (metis domD dom_map_of_conv_image_fst)
  with count_freq_props(3) [of s c] show ?thesis
    by (simp add: dict_get_def)
qed

lemma map_snd_distinct_keys:
  "distinct (map fst d) \<Longrightarrow> map snd d = map (\<lambda>k. the (map_of d k)) (map fst d)"
proof (induction d)
  case Nil
  show ?case by simp
next
  case (Cons e d)
  obtain k v where e: "e = (k, v)" by (cases e)
  from Cons.prems have k: "k \<notin> set (map fst d)" and d: "distinct (map fst d)"
    by (simp_all add: e)
  have "map (\<lambda>x. the (map_of (e # d) x)) (map fst d) = map (\<lambda>x. the (map_of d x)) (map fst d)"
  proof (rule map_cong [OF refl])
    fix x assume "x \<in> set (map fst d)"
    with k have "x \<noteq> k" by blast
    then show "the (map_of (e # d) x) = the (map_of d x)" by (simp add: e)
  qed
  with Cons.IH [OF d] show ?case by (simp add: e)
qed

lemma count_freq_values:
  "map snd (count_freq s) = map (count_list s) (map fst (count_freq s))"
proof -
  have "map snd (count_freq s) = map (\<lambda>k. the (map_of (count_freq s) k)) (map fst (count_freq s))"
    by (rule map_snd_distinct_keys) (rule count_freq_props(1))
  also have "\<dots> = map (count_list s) (map fst (count_freq s))"
  proof (rule map_cong [OF refl])
    fix k assume "k \<in> set (map fst (count_freq s))"
    then have "k \<in> set s" using count_freq_props(2) [of s] by simp
    then show "the (map_of (count_freq s) k) = count_list s k"
      by (simp add: map_of_count_freq)
  qed
  finally show ?thesis .
qed

lemma mapM_Some:
  "(\<And>x. x \<in> set xs \<Longrightarrow> f x = Some (g x)) \<Longrightarrow> mapM f xs = Some (map g xs)"
  by (induction xs) simp_all

lemma entropy_sum_Some:
  assumes "\<forall>f\<in>set fs. 0 < f" "0 < n"
  shows "entropy_sum fs n
    = Some (- (\<Sum>f\<leftarrow>fs. (real f / real n) * log 2 (real f / real n)))"
proof -
  have "mapM (\<lambda>f. do { p \<leftarrow> truediv (real f) (real n); q \<leftarrow> truediv (real f) (real n);
                        l \<leftarrow> log2 q; Some (p * l) }) fs
        = Some (map (\<lambda>f. (real f / real n) * log 2 (real f / real n)) fs)"
    using assms by (intro mapM_Some) (simp add: truediv_def log2_def)
  then show ?thesis by (simp add: entropy_sum_def)
qed

lemma entropy_of_counts:
  assumes "xs \<noteq> []"
  shows "entropy_sum (map snd (count_freq xs)) (length xs) = Some (entropy_spec xs)"
proof -
  let ?keys = "map fst (count_freq xs)"
  let ?g = "\<lambda>f. (real f / real (length xs)) * log 2 (real f / real (length xs))"
  have keys: "set ?keys = set xs" "distinct ?keys"
    using count_freq_props(1,2) [of xs] by simp_all
  have "0 < count_list xs k" if "k \<in> set ?keys" for k
    using that keys(1) count_list_0_iff [of xs k] by auto
  then have pos: "\<forall>f\<in>set (map snd (count_freq xs)). 0 < f"
    unfolding count_freq_values by auto
  have "entropy_sum (map snd (count_freq xs)) (length xs)
        = Some (- (\<Sum>f\<leftarrow>map snd (count_freq xs). ?g f))"
    using pos assms by (intro entropy_sum_Some) simp_all
  also have "(\<Sum>f\<leftarrow>map snd (count_freq xs). ?g f) = (\<Sum>k\<leftarrow>?keys. ?g (count_list xs k))"
    unfolding count_freq_values by (simp add: comp_def)
  also have "\<dots> = (\<Sum>k\<in>set xs. ?g (count_list xs k))"
    using sum_list_distinct_conv_sum_set [OF keys(2), of "\<lambda>k. ?g (count_list xs k)"] keys(1)
    by simp
  finally show ?thesis
    by (simp add: entropy_spec_def rel_freq_def)
qed

lemma shannon_entropy_spec: "shannon_entropy s = Some (entropy_spec s)"
proof (cases "s = []")
  case True
  then show ?thesis by (simp add: shannon_entropy_def entropy_spec_def)
next
  case False
  then show ?thesis
    using entropy_of_counts [of s] by (simp add: shannon_entropy_def Let_def)
qed

lemma char_ngram_entropy_spec:
  "char_ngram_entropy s n = Some (if length s < n then 0 else entropy_spec (ngrams s n))"
proof (cases "length s < n")
  case True
  then show ?thesis by (simp add: char_ngram_entropy_def)
next
  case False
  then have "ngrams s n \<noteq> []" by (simp add: ngrams_def)
  from entropy_of_counts [OF this] False show ?thesis
    by (simp add: char_ngram_entropy_def ngrams_def Let_def del: upt_Suc)
qed

lemma count_list_distinct: "distinct xs \<Longrightarrow> c \<in> set xs \<Longrightarrow> count_list xs c = 1"
  by (induction xs) (auto simp: count_list_0_iff)

lemma entropy_spec_distinct:
  assumes "distinct xs" "xs \<noteq> []"
  shows "entropy_spec xs = log 2 (real (length xs))"
proof -
  let ?n = "real (length xs)"
  have n: "0 < ?n" using assms(2) by simp
  have "(\<Sum>c\<in>set xs. rel_freq xs c * log 2 (rel_freq xs c))
        = (\<Sum>c\<in>set xs. (1 / ?n) * log 2 (1 / ?n))"
  proof (rule sum.cong [OF refl])
    fix c assume "c \<in> set xs"
    with assms(1) have "count_list xs c = 1"
      by (rule count_list_distinct)
    then show "rel_freq xs c * log 2 (rel_freq xs c) = (1 / ?n) * log 2 (1 / ?n)"
      by (simp add: rel_freq_def)
  qed
  also have "\<dots> = real (card (set xs)) * ((1 / ?n) * log 2 (1 / ?n))"
    by simp
  also have "card (set xs) = length xs"
    using assms(1) by (rule distinct_card)
  also have "?n * ((1 / ?n) * log 2 (1 / ?n)) = log 2 (1 / ?n)"
    using n by simp
  also have "\<dots> = - log 2 ?n"
    using n by (simp add: log_divide)
  finally show ?thesis
    by (simp add: entropy_spec_def)
qed

text \<open>
  Claim C5.  \<open>shannon_entropy\<close> returns \<open>-\<Sigma> p(c) log\<^sub>2 p(c)\<close> over the characters of the
  string; it is 0 on the empty string and on \<open>aaaa\<close>; on a string of \<open>n \<ge> 1\<close> distinct
  characters it is \<open>log\<^sub>2 n\<close>; and \<open>char_ngram_entropy(s, n)\<close> is 0 when \<open>s\<close> is shorter
  than \<open>n\<close>.
\<close>

theorem shannon_entropy_claim:
  "shannon_entropy s = Some (- (\<Sum>c\<in>set s. rel_freq s c * log 2 (rel_freq s c)))
   \<and> shannon_entropy '''' = Some 0
   \<and> shannon_entropy ''aaaa'' = Some 0
   \<and> (distinct s \<and> s \<noteq> [] \<longrightarrow> shannon_entropy s = log2 (real (length s)))
   \<and> (length s < n \<longrightarrow> char_ngram_entropy s n = Some 0)"
proof -
  have "entropy_spec ''aaaa'' = 0"
    by (simp add: entropy_spec_def rel_freq_def)
  moreover have "distinct s \<and> s \<noteq> [] \<longrightarrow> shannon_entropy s = log2 (real (length s))"
    by (simp add: shannon_entropy_spec entropy_spec_distinct log2_def)
  ultimately show ?thesis
    by (simp add: shannon_entropy_spec char_ngram_entropy_spec entropy_spec_def)
qed

theorem shannon_entropy_claim_witness:
  "distinct ''abcd'' \<and> shannon_entropy ''abcd'' = Some 2
   \<and> length ''a'' < (2::nat) \<and> char_ngram_entropy ''a'' 2 = Some 0"
proof -
  have "log 2 ((2::real) ^ 2) = real 2"
    by (rule log_pow_cancel) simp_all
  moreover have "real (length ''abcd'') = 2 ^ 2" by simp
  ultimately have "log2 (real (length ''abcd'')) = Some 2"
    by (simp only: log2_def) simp
  note l = this
  have d: "distinct ''abcd'' \<and> ''abcd'' \<noteq> []" by simp
  from shannon_entropy_claim [of "''abcd''" 2]
  have "distinct ''abcd'' \<and> ''abcd'' \<noteq> [] \<longrightarrow> shannon_entropy ''abcd'' = log2 (real (length ''abcd''))"
    by blast
  with d l have 1: "shannon_entropy ''abcd'' = Some 2" by simp
  have s: "length ''a'' < (2::nat)" by simp
  from shannon_entropy_claim [of "''a''" 2]
  have "length ''a'' < 2 \<longrightarrow> char_ngram_entropy ''a'' 2 = Some 0"
    by blast
  with s have 2: "char_ngram_entropy ''a'' 2 = Some 0" by blast
  from d 1 s 2 show ?thesis by blast
qed

section \<open>extract_features returns a vector\<close>

lemma getlast_Some [simp]: "xs \<noteq> [] \<Longrightarrow> getlast xs = Some (last xs)"
  by (simp add: getlast_def)

lemma truediv_Some [simp]: "y \<noteq> 0 \<Longrightarrow> truediv x y = Some (x / y)"
  by (simp add: truediv_def)

lemma max_one_nonzero [simp]: "max (y::real) 1 \<noteq> 0" "real (max n 1) \<noteq> 0"
  by (simp_all add: max_def)

lemma py_min_Min:
  assumes "xs \<noteq> []"
  shows "py_min xs = Some (Min (set xs))"
proof (cases xs)
  case Nil
  with assms show ?thesis by simp
next
  case (Cons y ys)
  have "Min (set (y # ys)) = fold min ys y"
    by (rule Min.set_eq_fold)
  with Cons show ?thesis by (simp add: py_min_def)
qed

lemma min_brand_distance_spec: "min_brand_distance domain = Some (brand_distance domain)"
proof -
  have first: "getitem (str_split CHR ''.'' domain) 0 = Some (hd (str_split CHR ''.'' domain))"
    by (cases "str_split CHR ''.'' domain") (simp_all add: getitem_def)
  have ds: "mapM (\<lambda>b. levenshtein (domain_core domain) b) BRANDS
      = Some (map (\<lambda>b. edit_distance (domain_core domain) b) BRANDS)"
    by (rule mapM_Some) (rule levenshtein_edit_distance)
  have "BRANDS \<noteq> []"
    by (simp add: BRANDS_def)
  then have "py_min (map (\<lambda>b. edit_distance (domain_core domain) b) BRANDS)
      = Some (brand_distance domain)"
    by (simp add: py_min_Min brand_distance_def)
  with first ds show ?thesis
    by (simp add: min_brand_distance_def domain_core_def)
qed

lemma str_split1_not_Nil [simp]: "str_split1 sep s \<noteq> []"
  by (simp add: str_split1_def split: option.splits)

lemma getitem_split_0 [simp]:
  "getitem (str_split sep s) 0 = Some (hd (str_split sep s))"
  by (cases "str_split sep s") (simp_all add: getitem_def)

lemma list_ex_iter_set:
  assumes "order_ok env"
  shows "list_ex P (iter_set env xs) = (\<exists>x\<in>set xs. P x)"
proof -
  have "mset (set_order env (remdups xs)) = mset (remdups xs)"
    using assms by (simp add: order_ok_def)
  then have "set (iter_set env xs) = set xs"
    unfolding iter_set_def by (metis set_mset_mset set_remdups)
  then show ?thesis
    by (simp add: list_ex_iff)
qed

lemma upi_loop_Some:
  "\<exists>r. upi_loop env ms = Some r \<and> (r = 0 \<or> r = 1)"
  by (induction ms) (simp_all add: Let_def)

lemma upi_loop_spec:
  assumes "order_ok env"
  shows "upi_loop env ms = Some (flag (\<exists>m\<in>set ms. suspicious_vpa m))"
proof (induction ms)
  case Nil
  show ?case by (simp add: flag_def)
next
  case (Cons m ms)
  show ?case
    using Cons
    by (simp add: Let_def list_ex_iter_set [OF assms] suspicious_vpa_def vpa_handle_def
        vpa_local_def flag_def)
qed

lemma rmatch_Seq_iff:
  "x \<in> set (rmatch (Seq a b) st) \<longleftrightarrow> (\<exists>y\<in>set (rmatch a st). x \<in> set (rmatch b y))"
  by (simp only: rmatch.simps set_concat set_map) blast

lemma ext_re_group:
  assumes "x \<in> set (rmatch ext_re st)"
  shows "snd (snd x) \<noteq> None"
proof -
  let ?tail = "Seq (Alt (Cls (\<lambda>c. c = CHR ''?'' \<or> c = CHR ''#'')) Eol) Eps"
  let ?grp = "Grp (Rep ascii_alnum 1 (Some 5))"
  have tail: "snd (snd z) = snd (snd y)" if "z \<in> set (rmatch ?tail y)" for y z
  proof -
    obtain q t h where y: "y = (q, t, h)" by (cases y)
    from that show ?thesis
      unfolding y by (cases t) (auto split: if_splits)
  qed
  have grp: "snd (snd y) \<noteq> None" if "y \<in> set (rmatch ?grp w)" for w y
  proof -
    obtain q t h where w: "w = (q, t, h)" by (cases w)
    from that show ?thesis
      unfolding w by (simp only: rmatch.simps set_map) auto
  qed
  from assms have "\<exists>w\<in>set (rmatch (Lit ''.'') st). \<exists>y\<in>set (rmatch ?grp w). x \<in> set (rmatch ?tail y)"
    by (simp only: ext_re_def Seqs.simps rmatch_Seq_iff)
  then obtain w y where "y \<in> set (rmatch ?grp w)" "x \<in> set (rmatch ?tail y)"
    by blast
  with tail grp show ?thesis by metis
qed

lemma search_ext_re_group:
  "search_from ext_re p s = Some (m, g) \<Longrightarrow> g \<noteq> None"
proof (induction s arbitrary: p)
  case Nil
  show ?case
  proof (cases "rmatch ext_re (p, [], None)")
    case Nil
    with Nil.prems show ?thesis by simp
  next
    case (Cons x xs)
    then have "x \<in> set (rmatch ext_re (p, [], None))" by simp
    then have "snd (snd x) \<noteq> None" by (rule ext_re_group)
    with Cons Nil.prems show ?thesis by (cases x) auto
  qed
next
  case (Cons c cs)
  show ?case
  proof (cases "rmatch ext_re (p, c # cs, None)")
    case Nil
    with Cons show ?thesis by simp
  next
    case (Cons x xs)
    then have "x \<in> set (rmatch ext_re (p, c # cs, None))" by simp
    then have "snd (snd x) \<noteq> None" by (rule ext_re_group)
    with Cons Cons.prems show ?thesis by (cases x) auto
  qed
qed

lemma file_ext_Some:
  "(case re_search ext_re s of None \<Rightarrow> Some ''''
    | Some (m, None) \<Rightarrow> None
    | Some (m, Some g) \<Rightarrow> Some (str_lower g)) = Some (file_ext s)"
proof (cases "re_search ext_re s")
  case None
  then show ?thesis by (simp add: file_ext_def)
next
  case (Some r)
  obtain m g where r: "r = (m, g)" by (cases r)
  with Some have "g \<noteq> None"
    using search_ext_re_group [of None s m g] by (simp add: re_search_def)
  with Some r show ?thesis by (auto simp: file_ext_def)
qed

lemma upi_loop_bind: "upi_loop env ms \<bind> k = k (the (upi_loop env ms))"
  using upi_loop_Some [of env ms] by auto

lemma no_proto_Some:
  "(if str_in ''//'' url then getlast (str_split1 ''//'' url) else Some url)
     = Some (if str_in ''//'' url then last (str_split1 ''//'' url) else url)"
  by simp

text \<open>
  No operation of \<open>extract_features\<close> raises, so the function returns the vector of
  its 56 assignments.
\<close>

lemma vec56:
  "(replicate 56 (0::real))
     [0 := a0, 1 := a1, 2 := a2, 3 := a3, 4 := a4, 5 := a5, 6 := a6, 7 := a7, 8 := a8, 9 := a9,
      10 := a10, 11 := a11, 12 := a12, 13 := a13, 14 := a14, 15 := a15, 16 := a16, 17 := a17, 18
      := a18, 19 := a19, 20 := a20, 21 := a21, 22 := a22, 23 := a23, 24 := a24, 25 := a25, 26 :=
      a26, 27 := a27, 28 := a28, 29 := a29, 30 := a30, 31 := a31, 32 := a32, 33 := a33, 34 :=
      a34, 35 := a35, 36 := a36, 37 := a37, 38 := a38, 39 := a39, 40 := a40, 41 := a41, 42 :=
      a42, 43 := a43, 44 := a44, 45 := a45, 46 := a46, 47 := a47, 48 := a48, 49 := a49, 50 :=
      a50, 51 := a51, 52 := a52, 53 := a53, 54 := a54, 55 := a55]
   = [a0, a1, a2, a3, a4, a5, a6, a7, a8, a9, a10, a11, a12, a13, a14, a15, a16, a17, a18, a19,
      a20, a21, a22, a23, a24, a25, a26, a27, a28, a29, a30, a31, a32, a33, a34, a35, a36, a37,
      a38, a39, a40, a41, a42, a43, a44, a45, a46, a47, a48, a49, a50, a51, a52, a53, a54, a55]"
  by (simp add: numeral_eq_Suc)

lemma extract_features_eq:
  "extract_features env url =
     (let p = parse_url_parts env url; low = str_lower url
      in Some
       [\<comment> \<open>0\<close> real (length url),
        \<comment> \<open>1\<close> real (length (host p)),
        \<comment> \<open>2\<close> real (length (path p)),
        \<comment> \<open>3\<close> real (length (query p)),
        \<comment> \<open>4\<close> real (count_list url CHR ''.''),
        \<comment> \<open>5\<close> real (count_list url CHR ''-''),
        \<comment> \<open>6\<close> real (count_list url CHR ''_''),
        \<comment> \<open>7\<close> real (count_list (if str_in ''//'' url then last (str_split1 ''//'' url) else url) CHR ''/''),
        \<comment> \<open>8\<close> real (count_list url CHR ''@''),
        \<comment> \<open>9\<close> real (length (filter isdigit url)),
        \<comment> \<open>10\<close> real (length (filter isdigit url)) / real (max (length url) 1),
        \<comment> \<open>11\<close> flag (scheme p = ''https''),
        \<comment> \<open>12\<close> flag (re_search ip_re (host p) \<noteq> None),
        \<comment> \<open>13\<close> flag (str_in ''xn--'' (host p)),
        \<comment> \<open>14\<close> real_of_int (max (int (length (labels p)) - 2) 0),
        \<comment> \<open>15\<close> flag (case port p of None \<Rightarrow> False | Some n \<Rightarrow> n \<notin> {80, 443, 8080, 8443}),
        \<comment> \<open>16\<close> entropy_spec url,
        \<comment> \<open>17\<close> entropy_spec (host p),
        \<comment> \<open>18\<close> entropy_spec (path p),
        \<comment> \<open>19\<close> (if length (host p) < 2 then 0 else entropy_spec (ngrams (host p) 2)),
        \<comment> \<open>20\<close> (if length (host p) < 3 then 0 else entropy_spec (ngrams (host p) 3)),
        \<comment> \<open>21\<close> flag (0 < brand_distance (registered_domain p) \<and> brand_distance (registered_domain p) \<le> 2),
        \<comment> \<open>22\<close> real (min (brand_distance (registered_domain p)) 10) / 10,
        \<comment> \<open>23\<close> flag (list_ex (\<lambda>b. str_in b (subdomain p)) BRANDS
                    \<and> \<not> list_ex (\<lambda>b. str_in b (hd (str_split CHR ''.'' (registered_domain p)))) BRANDS),
        \<comment> \<open>24\<close> flag (list_ex (\<lambda>k. str_in k low) (iter_set env login_kw)),
        \<comment> \<open>25\<close> flag (list_ex (\<lambda>k. str_in k (host p)) (iter_set env trust_kw)),
        \<comment> \<open>26\<close> flag (list_ex (\<lambda>k. str_in k low) (iter_set env pay_kw)),
        \<comment> \<open>27\<close> flag (list_ex (\<lambda>k. str_in k low) (iter_set env free_kw)),
        \<comment> \<open>28\<close> flag (list_ex (\<lambda>k. str_in k low) (iter_set env fraud_kw)),
        \<comment> \<open>29\<close> min (real (length (filter (\<lambda>k. str_in k low)
                     (iter_set env (login_kw @ trust_kw @ pay_kw @ free_kw @ fraud_kw)))) / 6) 1,
        \<comment> \<open>30\<close> flag (CHR ''-'' \<in> set (host p)),
        \<comment> \<open>31\<close> flag (re_search dbl_re (path p) \<noteq> None),
        \<comment> \<open>32\<close> real (length (re_finditer pct_re url)) / real (max (length url) 1),
        \<comment> \<open>33\<close> min (real (length (re_finditer pct_re url)) / max (real (length url) / 3) 1) 1,
        \<comment> \<open>34\<close> real (if query p \<noteq> [] then length (str_split CHR ''&'' (query p)) else 0),
        \<comment> \<open>35\<close> flag (fragment p \<noteq> []),
        \<comment> \<open>36\<close> flag (prefix ''data:'' low),
        \<comment> \<open>37\<close> flag (str_in ''..'' (path p) \<or> str_in ''%2e%2e'' low),
        \<comment> \<open>38\<close> flag (tld p \<in> set SUSPICIOUS_TLDS),
        \<comment> \<open>39\<close> real (length (tld p)),
        \<comment> \<open>40\<close> flag (subdomain p \<noteq> []),
        \<comment> \<open>41\<close> flag (re_fullmatch numeric_re (host p)),
        \<comment> \<open>42\<close> real (length (remdups url)) / real (max (length url) 1),
        \<comment> \<open>43\<close> real (length (filter (\<lambda>c. c \<in> set ''aeiou'') (host p)))
                / real (max (length (filter isalpha (host p))) 1),
        \<comment> \<open>44\<close> real (max_consecutive_consonants (host p)),
        \<comment> \<open>45\<close> flag (registered_domain p \<in> set SHORT_URL_SERVICES),
        \<comment> \<open>46\<close> flag (re_search b64_re (query p) \<noteq> None),
        \<comment> \<open>47\<close> real (count_list (path p) CHR ''/''),
        \<comment> \<open>48\<close> flag (re_search upi_re url \<noteq> None),
        \<comment> \<open>49\<close> the (upi_loop env (re_finditer upi_re url)),
        \<comment> \<open>50\<close> flag (re_search collect_re low \<noteq> None),
        \<comment> \<open>51\<close> flag (file_ext (path p) \<in> set DANGEROUS_EXTENSIONS),
        \<comment> \<open>52\<close> flag (re_search admin_re low \<noteq> None),
        \<comment> \<open>53\<close> flag (re_search redirect_re low \<noteq> None),
        \<comment> \<open>54\<close> real (max_default (map (\<lambda>ch. length (filter (\<lambda>c. c = ch) (host p)))
                                     (iter_chars env (host p))) 0)
                / real (max (length (host p)) 1),
        \<comment> \<open>55\<close> flag (re_search hex_re low \<noteq> None)])"
  unfolding extract_features_def Let_def
  by (simp only: no_proto_Some shannon_entropy_spec char_ngram_entropy_spec
        min_brand_distance_spec getitem_split_0 file_ext_Some upi_loop_bind
        bind.bind_lunit setitem_Some length_list_update length_replicate truediv_Some
        max_one_nonzero numeral_less_iff less_num_simps le_num_simps zero_less_numeral
        one_less_numeral_iff
        zero_neq_numeral numeral_eq_iff num.simps simp_thms)
     (simp only: vec56)

text \<open>The entries of the returned vector, one by one.\<close>

lemma features_nth:
  assumes "extract_features env url = Some v"
    and "p = parse_url_parts env url" and "low = str_lower url"
  shows "length v = 56"
    and "v ! 0 = real (length url)"
    and "v ! 1 = real (length (host p))"
    and "v ! 2 = real (length (path p))"
    and "v ! 3 = real (length (query p))"
    and "v ! 4 = real (count_list url CHR ''.'')"
    and "v ! 5 = real (count_list url CHR ''-'')"
    and "v ! 6 = real (count_list url CHR ''_'')"
    and "v ! 7 = real (count_list (if str_in ''//'' url then last (str_split1 ''//'' url) else url) CHR ''/'')"
    and "v ! 8 = real (count_list url CHR ''@'')"
    and "v ! 9 = real (length (filter isdigit url))"
    and "v ! 10 = real (length (filter isdigit url)) / real (max (length url) 1)"
    and "v ! 11 = flag (scheme p = ''https'')"
    and "v ! 12 = flag (re_search ip_re (host p) \<noteq> None)"
    and "v ! 13 = flag (str_in ''xn--'' (host p))"
    and "v ! 14 = real_of_int (max (int (length (labels p)) - 2) 0)"
    and "v ! 15 = flag (case port p of None \<Rightarrow> False | Some n \<Rightarrow> n \<notin> {80, 443, 8080, 8443})"
    and "v ! 16 = entropy_spec url"
    and "v ! 17 = entropy_spec (host p)"
    and "v ! 18 = entropy_spec (path p)"
    and "v ! 19 = (if length (host p) < 2 then 0 else entropy_spec (ngrams (host p) 2))"
    and "v ! 20 = (if length (host p) < 3 then 0 else entropy_spec (ngrams (host p) 3))"
    and "v ! 21 = flag (0 < brand_distance (registered_domain p) \<and> brand_distance (registered_domain p) \<le> 2)"
    and "v ! 22 = real (min (brand_distance (registered_domain p)) 10) / 10"
    and "v ! 23 = flag (list_ex (\<lambda>b. str_in b (subdomain p)) BRANDS
                    \<and> \<not> list_ex (\<lambda>b. str_in b (hd (str_split CHR ''.'' (registered_domain p)))) BRANDS)"
    and "v ! 24 = flag (list_ex (\<lambda>k. str_in k low) (iter_set env login_kw))"
    and "v ! 25 = flag (list_ex (\<lambda>k. str_in k (host p)) (iter_set env trust_kw))"
    and "v ! 26 = flag (list_ex (\<lambda>k. str_in k low) (iter_set env pay_kw))"
    and "v ! 27 = flag (list_ex (\<lambda>k. str_in k low) (iter_set env free_kw))"
    and "v ! 28 = flag (list_ex (\<lambda>k. str_in k low) (iter_set env fraud_kw))"
    and "v ! 29 = min (real (length (filter (\<lambda>k. str_in k low)
                     (iter_set env (login_kw @ trust_kw @ pay_kw @ free_kw @ fraud_kw)))) / 6) 1"
    and "v ! 30 = flag (CHR ''-'' \<in> set (host p))"
    and "v ! 31 = flag (re_search dbl_re (path p) \<noteq> None)"
    and "v ! 32 = real (length (re_finditer pct_re url)) / real (max (length url) 1)"
    and "v ! 33 = min (real (length (re_finditer pct_re url)) / max (real (length url) / 3) 1) 1"
    and "v ! 34 = real (if query p \<noteq> [] then length (str_split CHR ''&'' (query p)) else 0)"
    and "v ! 35 = flag (fragment p \<noteq> [])"
    and "v ! 36 = flag (prefix ''data:'' low)"
    and "v ! 37 = flag (str_in ''..'' (path p) \<or> str_in ''%2e%2e'' low)"
    and "v ! 38 = flag (tld p \<in> set SUSPICIOUS_TLDS)"
    and "v ! 39 = real (length (tld p))"
    and "v ! 40 = flag (subdomain p \<noteq> [])"
    and "v ! 41 = flag (re_fullmatch numeric_re (host p))"
    and "v ! 42 = real (length (remdups url)) / real (max (length url) 1)"
    and "v ! 43 = real (length (filter (\<lambda>c. c \<in> set ''aeiou'') (host p)))
                / real (max (length (filter isalpha (host p))) 1)"
    and "v ! 44 = real (max_consecutive_consonants (host p))"
    and "v ! 45 = flag (registered_domain p \<in> set SHORT_URL_SERVICES)"
    and "v ! 46 = flag (re_search b64_re (query p) \<noteq> None)"
    and "v ! 47 = real (count_list (path p) CHR ''/'')"
    and "v ! 48 = flag (re_search upi_re url \<noteq> None)"
    and "v ! 49 = the (upi_loop env (re_finditer upi_re url))"
    and "v ! 50 = flag (re_search collect_re low \<noteq> None)"
    and "v ! 51 = flag (file_ext (path p) \<in> set DANGEROUS_EXTENSIONS)"
    and "v ! 52 = flag (re_search admin_re low \<noteq> None)"
    and "v ! 53 = flag (re_search redirect_re low \<noteq> None)"
    and "v ! 54 = real (max_default (map (\<lambda>ch. length (filter (\<lambda>c. c = ch) (host p)))
                                     (iter_chars env (host p))) 0)
                / real (max (length (host p)) 1)"
    and "v ! 55 = flag (re_search hex_re low \<noteq> None)"
proof -
  note e = assms(1) [unfolded extract_features_eq Let_def option.inject, symmetric]
  show "length v = 56"
    unfolding e by simp
  show "v ! 0 = real (length url)"
    unfolding e assms(2,3) by simp
  show "v ! 1 = real (length (host p))"
    unfolding e assms(2,3) by simp
  show "v ! 2 = real (length (path p))"
    unfolding e assms(2,3) by simp
  show "v ! 3 = real (length (query p))"
    unfolding e assms(2,3) by simp
  show "v ! 4 = real (count_list url CHR ''.'')"
    unfolding e assms(2,3) by simp
  show "v ! 5 = real (count_list url CHR ''-'')"
    unfolding e assms(2,3) by simp
  show "v ! 6 = real (count_list url CHR ''_'')"
    unfolding e assms(2,3) by simp
  show "v ! 7 = real (count_list (if str_in ''//'' url then last (str_split1 ''//'' url) else url) CHR ''/'')"
    unfolding e assms(2,3) by simp
  show "v ! 8 = real (count_list url CHR ''@'')"
    unfolding e assms(2,3) by simp
  show "v ! 9 = real (length (filter isdigit url))"
    unfolding e assms(2,3) by simp
  show "v ! 10 = real (length (filter isdigit url)) / real (max (length url) 1)"
    unfolding e assms(2,3) by simp
  show "v ! 11 = flag (scheme p = ''https'')"
    unfolding e assms(2,3) by simp
  show "v ! 12 = flag (re_search ip_re (host p) \<noteq> None)"
    unfolding e assms(2,3) by simp
  show "v ! 13 = flag (str_in ''xn--'' (host p))"
    unfolding e assms(2,3) by simp
  show "v ! 14 = real_of_int (max (int (length (labels p)) - 2) 0)"
    unfolding e assms(2,3) by simp
  show "v ! 15 = flag (case port p of None \<Rightarrow> False | Some n \<Rightarrow> n \<notin> {80, 443, 8080, 8443})"
    unfolding e assms(2,3) by simp
  show "v ! 16 = entropy_spec url"
    unfolding e assms(2,3) by simp
  show "v ! 17 = entropy_spec (host p)"
    unfolding e assms(2,3) by simp
  show "v ! 18 = entropy_spec (path p)"
    unfolding e assms(2,3) by simp
  show "v ! 19 = (if length (host p) < 2 then 0 else entropy_spec (ngrams (host p) 2))"
    unfolding e assms(2,3) by simp
  show "v ! 20 = (if length (host p) < 3 then 0 else entropy_spec (ngrams (host p) 3))"
    unfolding e assms(2,3) by simp
  show "v ! 21 = flag (0 < brand_distance (registered_domain p) \<and> brand_distance (registered_domain p) \<le> 2)"
    unfolding e assms(2,3) by simp
  show "v ! 22 = real (min (brand_distance (registered_domain p)) 10) / 10"
    unfolding e assms(2,3) by simp
  show "v ! 23 = flag (list_ex (\<lambda>b. str_in b (subdomain p)) BRANDS
                    \<and> \<not> list_ex (\<lambda>b. str_in b (hd (str_split CHR ''.'' (registered_domain p)))) BRANDS)"
    unfolding e assms(2,3) by simp
  show "v ! 24 = flag (list_ex (\<lambda>k. str_in k low) (iter_set env login_kw))"
    unfolding e assms(2,3) by simp
  show "v ! 25 = flag (list_ex (\<lambda>k. str_in k (host p)) (iter_set env trust_kw))"
    unfolding e assms(2,3) by simp
  show "v ! 26 = flag (list_ex (\<lambda>k. str_in k low) (iter_set env pay_kw))"
    unfolding e assms(2,3) by simp
  show "v ! 27 = flag (list_ex (\<lambda>k. str_in k low) (iter_set env free_kw))"
    unfolding e assms(2,3) by simp
  show "v ! 28 = flag (list_ex (\<lambda>k. str_in k low) (iter_set env fraud_kw))"
    unfolding e assms(2,3) by simp
  show "v ! 29 = min (real (length (filter (\<lambda>k. str_in k low)
                     (iter_set env (login_kw @ trust_kw @ pay_kw @ free_kw @ fraud_kw)))) / 6) 1"
    unfolding e assms(2,3) by simp
  show "v ! 30 = flag (CHR ''-'' \<in> set (host p))"
    unfolding e assms(2,3) by simp
  show "v ! 31 = flag (re_search dbl_re (path p) \<noteq> None)"
    unfolding e assms(2,3) by simp
  show "v ! 32 = real (length (re_finditer pct_re url)) / real (max (length url) 1)"
    unfolding e assms(2,3) by simp
  show "v ! 33 = min (real (length (re_finditer pct_re url)) / max (real (length url) / 3) 1) 1"
    unfolding e assms(2,3) by simp
  show "v ! 34 = real (if query p \<noteq> [] then length (str_split CHR ''&'' (query p)) else 0)"
    unfolding e assms(2,3) by simp
  show "v ! 35 = flag (fragment p \<noteq> [])"
    unfolding e assms(2,3) by simp
  show "v ! 36 = flag (prefix ''data:'' low)"
    unfolding e assms(2,3) by simp
  show "v ! 37 = flag (str_in ''..'' (path p) \<or> str_in ''%2e%2e'' low)"
    unfolding e assms(2,3) by simp
  show "v ! 38 = flag (tld p \<in> set SUSPICIOUS_TLDS)"
    unfolding e assms(2,3) by simp
  show "v ! 39 = real (length (tld p))"
    unfolding e assms(2,3) by simp
  show "v ! 40 = flag (subdomain p \<noteq> [])"
    unfolding e assms(2,3) by simp
  show "v ! 41 = flag (re_fullmatch numeric_re (host p))"
    unfolding e assms(2,3) by simp
  show "v ! 42 = real (length (remdups url)) / real (max (length url) 1)"
    unfolding e assms(2,3) by simp
  show "v ! 43 = real (length (filter (\<lambda>c. c \<in> set ''aeiou'') (host p)))
                / real (max (length (filter isalpha (host p))) 1)"
    unfolding e assms(2,3) by simp
  show "v ! 44 = real (max_consecutive_consonants (host p))"
    unfolding e assms(2,3) by simp
  show "v ! 45 = flag (registered_domain p \<in> set SHORT_URL_SERVICES)"
    unfolding e assms(2,3) by simp
  show "v ! 46 = flag (re_search b64_re (query p) \<noteq> None)"
    unfolding e assms(2,3) by simp
  show "v ! 47 = real (count_list (path p) CHR ''/'')"
    unfolding e assms(2,3) by simp
  show "v ! 48 = flag (re_search upi_re url \<noteq> None)"
    unfolding e assms(2,3) by simp
  show "v ! 49 = the (upi_loop env (re_finditer upi_re url))"
    unfolding e assms(2,3) by simp
  show "v ! 50 = flag (re_search collect_re low \<noteq> None)"
    unfolding e assms(2,3) by simp
  show "v ! 51 = flag (file_ext (path p) \<in> set DANGEROUS_EXTENSIONS)"
    unfolding e assms(2,3) by simp
  show "v ! 52 = flag (re_search admin_re low \<noteq> None)"
    unfolding e assms(2,3) by simp
  show "v ! 53 = flag (re_search redirect_re low \<noteq> None)"
    unfolding e assms(2,3) by simp
  show "v ! 54 = real (max_default (map (\<lambda>ch. length (filter (\<lambda>c. c = ch) (host p)))
                                     (iter_chars env (host p))) 0)
                / real (max (length (host p)) 1)"
    unfolding e assms(2,3) by simp
  show "v ! 55 = flag (re_search hex_re low \<noteq> None)"
    unfolding e assms(2,3) by simp
qed

section \<open>The vector and the shapes of its entries\<close>

text \<open>
  Claim C1.  For every input string (and whatever the library validates and the order
  in which sets are iterated) \<open>extract_features\<close> raises nothing and returns a vector
  of exactly 56 reals; \<open>parse_url_parts\<close> absorbs every exception of its \<open>try\<close>: it
  returns the parsed record, or the fallback record when the body raises.
\<close>

theorem extract_features_total:
  "(\<exists>v. extract_features env url = Some v \<and> length v = 56)
   \<and> (case parse_try env url of
         Some p \<Rightarrow> parse_url_parts env url = p
       | None \<Rightarrow> parse_url_parts env url = parse_except url)"
  by (simp add: extract_features_eq Let_def parse_url_parts_def split: option.splits)

theorem extract_features_total_witness:
  "(\<exists>v. extract_features default_env '''' = Some v \<and> length v = 56)
   \<and> (\<exists>v. extract_features default_env ''http://[::1'' = Some v \<and> length v = 56)
   \<and> parse_try default_env ''http://[::1'' = None
   \<and> parse_url_parts default_env ''http://[::1'' = parse_except ''http://[::1''"
proof -
  have n: "parse_try default_env ''http://[::1'' = None"
    by code_simp
  from extract_features_total [of default_env "''''"]
    extract_features_total [of default_env "''http://[::1''"] n
  show ?thesis by simp
qed

lemma flag_cases [simp]: "flag b = 0 \<or> flag b = 1"
  by (simp add: flag_def)

lemma upi_value_cases:
  "the (upi_loop env ms) = 0 \<or> the (upi_loop env ms) = 1"
  using upi_loop_Some [of env ms] by auto

lemma ratio_nat:
  "a \<le> b \<Longrightarrow> 0 \<le> real a / real (max b 1) \<and> real a / real (max b 1) \<le> 1"
  by (simp add: max_def)

lemma length_finditer_from: "length (finditer_from r p s k) \<le> length s"
proof (induction s arbitrary: p k)
  case Nil
  show ?case by simp
next
  case (Cons c cs)
  have "length (finditer_from r (Some c) cs j) \<le> Suc (length cs)"
    and "length (finditer_from r (Some c) cs j) \<le> length cs" for j
    using Cons [of "Some c" j] by simp_all
  then show ?case
    by (auto simp: Let_def split: list.splits prod.splits)
qed

lemma length_filter_mono:
  "(\<And>x. P x \<Longrightarrow> Q x) \<Longrightarrow> length (filter P xs) \<le> length (filter Q xs)"
  by (induction xs) (auto simp: le_SucI)

lemma vowel_isalpha: "c \<in> set ''aeiou'' \<Longrightarrow> isalpha c"
  by (auto simp: isalpha_def code_point_def)

lemma max_default_le:
  assumes "\<forall>x\<in>set xs. x \<le> n" "d \<le> n"
  shows "max_default xs d \<le> n"
proof (cases xs)
  case Nil
  with assms show ?thesis by (simp add: max_default_def)
next
  case (Cons y ys)
  have "Max (set (y # ys)) = fold max ys y"
    by (rule Max.set_eq_fold)
  moreover have "Max (set (y # ys)) \<le> n"
    using assms(1) Cons by (intro Max.boundedI) auto
  ultimately show ?thesis
    using Cons by (simp add: max_default_def)
qed

lemma of_int_max_Nats: "real_of_int (max z 0) \<in> \<nat>"
proof -
  have "real_of_int (max z 0) = real (nat (max z 0))" by simp
  then show ?thesis by (simp only: of_nat_in_Nats)
qed

lemma entropy_spec_nonneg: "0 \<le> entropy_spec xs"
proof -
  have "rel_freq xs c * log 2 (rel_freq xs c) \<le> 0" if "c \<in> set xs" for c
  proof -
    from that have "0 < count_list xs c"
      using count_list_0_iff [of xs c] by auto
    moreover from that have "0 < length xs"
      by (cases xs) auto
    ultimately have pos: "0 < rel_freq xs c"
      by (simp add: rel_freq_def)
    have "count_list xs c \<le> length xs"
      by (rule count_le_length)
    then have "rel_freq xs c \<le> 1"
      using \<open>0 < length xs\<close> by (simp add: rel_freq_def)
    with pos have "log 2 (rel_freq xs c) \<le> 0"
      by simp
    with pos show ?thesis
      by (simp add: mult_le_0_iff)
  qed
  then have "(\<Sum>c\<in>set xs. rel_freq xs c * log 2 (rel_freq xs c)) \<le> 0"
    by (rule sum_nonpos)
  then show ?thesis
    by (simp add: entropy_spec_def)
qed

lemma log_2_3_bounds: "1 < log 2 (3::real)" "log 2 (3::real) < 2"
proof -
  have "log 2 (2::real) < log 2 3"
    by simp
  then show "1 < log 2 (3::real)"
    by simp
  have "log 2 ((2::real) ^ 2) = real 2"
    by (rule log_pow_cancel) simp_all
  moreover have "log 2 (3::real) < log 2 (2 ^ 2)"
    by (subst log_less_cancel_iff) simp_all
  ultimately show "log 2 (3::real) < 2"
    by simp
qed

lemma between_1_2_not_Nats:
  assumes "1 < (x::real)" "x < 2"
  shows "x \<notin> \<nat>"
proof
  assume "x \<in> \<nat>"
  then obtain n :: nat where "x = real n"
    by (auto simp: Nats_def)
  with assms show False
    by simp
qed

text \<open>
  Claim C3, as it is written, does not hold: the entropies have none of the three
  shapes.  On \<open>abc\<close> entry 16 (url_entropy) is \<open>log\<^sub>2 3\<close>, which lies strictly between
  1 and 2: it is not a flag, not a natural number and not in [0, 1].
\<close>

theorem entropy_entry_no_shape:
  "extract_features default_env ''abc'' \<noteq> None
   \<and> the (extract_features default_env ''abc'') ! 16 = log 2 3
   \<and> the (extract_features default_env ''abc'') ! 16 \<noteq> 0
   \<and> the (extract_features default_env ''abc'') ! 16 \<noteq> 1
   \<and> the (extract_features default_env ''abc'') ! 16 \<notin> \<nat>
   \<and> \<not> the (extract_features default_env ''abc'') ! 16 \<le> 1"
proof -
  obtain v where v: "extract_features default_env ''abc'' = Some v"
    by (simp add: extract_features_eq Let_def)
  have "v ! 16 = entropy_spec ''abc''"
    by (rule features_nth(18) [OF v refl refl])
  also have "\<dots> = log 2 (real (length ''abc''))"
    by (rule entropy_spec_distinct) simp_all
  finally have x: "v ! 16 = log 2 3"
    by simp
  from log_2_3_bounds have n: "log 2 (3::real) \<notin> \<nat>"
    by (rule between_1_2_not_Nats)
  from log_2_3_bounds(1) have b: "log 2 (3::real) \<noteq> 0" "log 2 (3::real) \<noteq> 1" "\<not> log 2 (3::real) \<le> 1"
    by linarith+
  from v have "extract_features default_env ''abc'' \<noteq> None"
    and "the (extract_features default_env ''abc'') ! 16 = log 2 3"
    using x by simp_all
  with n b show ?thesis
    by presburger
qed

text \<open>
  Claim C3, amended.  For every input string the returned vector has 56 entries, and
  each entry has the shape of its kind: each of the 28 binary flags is 0 or 1, each of
  the 15 counts is a natural number, each of the eight normalised ratios lies in
  [0, 1], and each of the five entropies (16 to 20) is a non-negative real, which may
  exceed 1 and need not be a whole number.  The four kinds are all 56 indices.  (The
  entries are reals, so none is NaN or infinite.)
\<close>

theorem extract_features_shapes:
  "\<exists>v. extract_features env url = Some v \<and> length v = 56
     \<and> (\<forall>i\<in>set binary_features. v ! i = 0 \<or> v ! i = 1)
     \<and> (\<forall>i\<in>set count_features. v ! i \<in> \<nat>)
     \<and> (\<forall>i\<in>set ratio_features. 0 \<le> v ! i \<and> v ! i \<le> 1)
     \<and> (\<forall>i\<in>set entropy_features. 0 \<le> v ! i)
     \<and> set binary_features \<union> set count_features \<union> set ratio_features
           \<union> set entropy_features = {0..<56}"
proof -
  let ?p = "parse_url_parts env url"
  obtain v where v: "extract_features env url = Some v"
    by (simp add: extract_features_eq Let_def)
  note e = v [unfolded extract_features_eq Let_def option.inject, symmetric]
  have len: "length v = 56"
    unfolding e by simp
  have bin: "\<forall>i\<in>set binary_features. v ! i = 0 \<or> v ! i = 1"
    unfolding e binary_features_def by (simp add: upi_value_cases)
  have cnt: "\<forall>i\<in>set count_features. v ! i \<in> \<nat>"
    unfolding e count_features_def by (simp add: of_int_max_Nats del: of_int_max)
  have r10: "0 \<le> v ! 10 \<and> v ! 10 \<le> 1"
    unfolding e using ratio_nat [of "length (filter isdigit url)" "length url"] by simp
  have r22: "0 \<le> v ! 22 \<and> v ! 22 \<le> 1"
    unfolding e by simp
  have r29: "0 \<le> v ! 29 \<and> v ! 29 \<le> 1"
    unfolding e by simp
  have r32: "0 \<le> v ! 32 \<and> v ! 32 \<le> 1"
    unfolding e
    using ratio_nat [of "length (re_finditer pct_re url)" "length url"]
      length_finditer_from [of pct_re None url 0]
    by (simp add: re_finditer_def)
  have r33: "0 \<le> v ! 33 \<and> v ! 33 \<le> 1"
    unfolding e by simp
  have r42: "0 \<le> v ! 42 \<and> v ! 42 \<le> 1"
    unfolding e using ratio_nat [of "length (remdups url)" "length url"] length_remdups_leq [of url]
    by simp
  have "length (filter (\<lambda>c. c \<in> set ''aeiou'') (host ?p)) \<le> length (filter isalpha (host ?p))"
    by (rule length_filter_mono) (rule vowel_isalpha)
  then have r43: "0 \<le> v ! 43 \<and> v ! 43 \<le> 1"
    unfolding e
    using ratio_nat [of "length (filter (\<lambda>c. c \<in> set ''aeiou'') (host ?p))"
        "length (filter isalpha (host ?p))"]
    by simp
  have "max_default (map (\<lambda>ch. length (filter (\<lambda>c. c = ch) (host ?p))) (iter_chars env (host ?p))) 0
      \<le> length (host ?p)"
    by (rule max_default_le) simp_all
  then have r54: "0 \<le> v ! 54 \<and> v ! 54 \<le> 1"
    unfolding e
    using ratio_nat [of "max_default (map (\<lambda>ch. length (filter (\<lambda>c. c = ch) (host ?p)))
        (iter_chars env (host ?p))) 0" "length (host ?p)"]
    by simp
  have rat: "\<forall>i\<in>set ratio_features. 0 \<le> v ! i \<and> v ! i \<le> 1"
    unfolding ratio_features_def using r10 r22 r29 r32 r33 r42 r43 r54 by simp
  have ent: "\<forall>i\<in>set entropy_features. 0 \<le> v ! i"
    unfolding e entropy_features_def by (simp add: entropy_spec_nonneg)
  have all: "set binary_features \<union> set count_features \<union> set ratio_features
           \<union> set entropy_features = {0..<56}"
    unfolding binary_features_def count_features_def ratio_features_def entropy_features_def
    by (simp add: atLeastLessThan_nat_numeral) blast
  from v len bin cnt rat ent all show ?thesis by blast
qed

theorem extract_features_shapes_witness:
  "\<exists>v. extract_features default_env ''https://a1.xyz'' = Some v \<and> length v = 56
     \<and> v ! 11 = 1 \<and> v ! 0 = 14 \<and> v ! 10 = 1 / 14 \<and> v ! 16 = entropy_spec ''https://a1.xyz''
     \<and> (v ! 11 = 0 \<or> v ! 11 = 1) \<and> v ! 0 \<in> \<nat> \<and> 0 \<le> v ! 10 \<and> v ! 10 \<le> 1 \<and> 0 \<le> v ! 16"
proof -
  have m: "11 \<in> set binary_features" "0 \<in> set count_features" "10 \<in> set ratio_features"
    "16 \<in> set entropy_features"
    by (simp_all add: binary_features_def count_features_def ratio_features_def
        entropy_features_def)
  from extract_features_shapes [of default_env "''https://a1.xyz''"] obtain v where
    v: "extract_features default_env ''https://a1.xyz'' = Some v" "length v = 56"
    "\<forall>i\<in>set binary_features. v ! i = 0 \<or> v ! i = 1"
    "\<forall>i\<in>set count_features. v ! i \<in> \<nat>"
    "\<forall>i\<in>set ratio_features. 0 \<le> v ! i \<and> v ! i \<le> 1"
    "\<forall>i\<in>set entropy_features. 0 \<le> v ! i"
    by blast
  have s: "scheme (parse_url_parts default_env ''https://a1.xyz'') = ''https''"
    by code_simp
  have d: "length (filter isdigit ''https://a1.xyz'') = 1"
    by code_simp
  have 11: "v ! 11 = 1"
    unfolding features_nth(13) [OF v(1) refl refl] s by (simp add: flag_def)
  have 0: "v ! 0 = 14"
    unfolding features_nth(2) [OF v(1) refl refl] by simp
  have 10: "v ! 10 = 1 / 14"
    unfolding features_nth(12) [OF v(1) refl refl] d by simp
  have 16: "v ! 16 = entropy_spec ''https://a1.xyz''"
    by (rule features_nth(18) [OF v(1) refl refl])
  from v m 11 0 10 16 show ?thesis by blast
qed

section \<open>The vector depends on the string only\<close>

lemma urlsplit_same_library:
  assumes "same_library e1 e2"
  shows "urlsplit e1 url = urlsplit e2 url"
proof -
  from assms have "bracketed_netloc_ok e1 = bracketed_netloc_ok e2"
    by (simp add: same_library_def)
  then show ?thesis
    by (simp only: urlsplit_def)
qed

lemma py_int_same_library:
  assumes "same_library e1 e2"
  shows "py_int e1 s = py_int e2 s"
proof -
  from assms have "int_max_str_digits e1 = int_max_str_digits e2"
    by (simp add: same_library_def)
  then show ?thesis
    by (simp only: py_int_def)
qed

lemma parse_url_parts_same_library:
  assumes "same_library e1 e2"
  shows "parse_url_parts e1 url = parse_url_parts e2 url"
  by (simp only: parse_url_parts_def parse_try_def urlparse_def
      urlsplit_same_library [OF assms] py_int_same_library [OF assms])

lemma iter_set_mset:
  assumes "order_ok env"
  shows "mset (iter_set env xs) = mset (remdups xs)"
  using assms by (simp add: order_ok_def iter_set_def)

lemma iter_chars_mset:
  assumes "order_ok env"
  shows "mset (iter_chars env s) = mset (remdups s)"
  using assms by (simp add: order_ok_def iter_chars_def)

lemma length_filter_mset:
  assumes "mset xs = mset ys"
  shows "length (filter P xs) = length (filter P ys)"
proof -
  have "mset (filter P xs) = mset (filter P ys)"
    using assms by (simp only: mset_filter)
  then have "size (mset (filter P xs)) = size (mset (filter P ys))"
    by (rule arg_cong)
  then show ?thesis
    by (simp only: size_mset)
qed

lemma hits_iter_set:
  assumes "order_ok env"
  shows "length (filter P (iter_set env xs)) = length (filter P (remdups xs))"
  using iter_set_mset [OF assms] by (rule length_filter_mset)

lemma max_default_Max:
  "max_default xs d = (if xs = [] then d else Max (set xs))"
proof (cases xs)
  case Nil
  then show ?thesis by (simp add: max_default_def)
next
  case (Cons y ys)
  have "Max (set (y # ys)) = fold max ys y"
    by (rule Max.set_eq_fold)
  with Cons show ?thesis by (simp add: max_default_def)
qed

lemma max_rep_iter_chars:
  assumes "order_ok env"
  shows "max_default (map f (iter_chars env s)) 0 = max_default (map f (remdups s)) 0"
proof -
  have m: "mset (iter_chars env s) = mset (remdups s)"
    using assms by (rule iter_chars_mset)
  then have "set (iter_chars env s) = set (remdups s)"
    by (rule mset_eq_setD)
  moreover have "iter_chars env s = [] \<longleftrightarrow> remdups s = []"
    using m by (metis mset_zero_iff)
  ultimately show ?thesis
    by (simp add: max_default_Max)
qed

text \<open>
  Claim C4.  \<open>extract_features\<close> is a function of the input string: with the library
  fixed, the vector is the same whatever the order in which the process iterates its
  sets, so two calls with the same string return the same 56 entries.  (The model has
  no other state: the module keeps none.)
\<close>

theorem extract_features_deterministic:
  assumes "order_ok e1" "order_ok e2" "same_library e1 e2"
  shows "extract_features e1 url = extract_features e2 url"
  unfolding extract_features_eq Let_def
  by (simp only: parse_url_parts_same_library [OF assms(3)]
      list_ex_iter_set [OF assms(1)] list_ex_iter_set [OF assms(2)]
      hits_iter_set [OF assms(1)] hits_iter_set [OF assms(2)]
      upi_loop_spec [OF assms(1)] upi_loop_spec [OF assms(2)]
      max_rep_iter_chars [OF assms(1)] max_rep_iter_chars [OF assms(2)])

theorem extract_features_deterministic_witness:
  "order_ok default_env
   \<and> order_ok (default_env\<lparr>set_order := rev, chars_order := rev\<rparr>)
   \<and> same_library default_env (default_env\<lparr>set_order := rev, chars_order := rev\<rparr>)
   \<and> extract_features default_env ''http://a-b.xyz/login''
       = extract_features (default_env\<lparr>set_order := rev, chars_order := rev\<rparr>) ''http://a-b.xyz/login''"
proof -
  have 1: "order_ok default_env"
    by (simp add: order_ok_def default_env_def)
  have 2: "order_ok (default_env\<lparr>set_order := rev, chars_order := rev\<rparr>)"
    by (simp add: order_ok_def)
  have 3: "same_library default_env (default_env\<lparr>set_order := rev, chars_order := rev\<rparr>)"
    by (simp add: same_library_def)
  from 1 2 3 extract_features_deterministic [OF 1 2 3, of "''http://a-b.xyz/login''"]
  show ?thesis by simp
qed

section \<open>Brand similarity and the end-to-end example\<close>

lemmas chr_defs = c0_control_or_space_def code_point_def isascii_def isalpha_def isdigit_def
  isdecimal_def isword_def lower_chr_def

lemmas str_defs = str_lower_def str_isdigit_def str_partition_def str_split1_def
  str_find_from_def str_find_def str_rfind_def slice_index_def slice_def slice_to_def
  slice_from_def getlast_def

lemma brand_distance_Min:
  "(\<forall>b\<in>set BRANDS. brand_distance domain \<le> edit_distance (domain_core domain) b)
   \<and> (\<exists>b\<in>set BRANDS. brand_distance domain = edit_distance (domain_core domain) b)"
proof -
  let ?D = "(\<lambda>b. edit_distance (domain_core domain) b) ` set BRANDS"
  have "BRANDS \<noteq> []"
    by (simp add: BRANDS_def)
  then have "set BRANDS \<noteq> {}"
    by (simp only: set_empty not_False_eq_True)
  then have ne: "?D \<noteq> {}"
    by (simp only: image_is_empty not_False_eq_True)
  have fin: "finite ?D"
    by simp
  have "Min ?D \<in> ?D"
    using fin ne by (rule Min_in)
  moreover have "\<forall>x\<in>?D. Min ?D \<le> x"
    using fin by (blast intro: Min_le)
  ultimately show ?thesis
    unfolding brand_distance_def by blast
qed

lemma brand_distance_paypal:
  "brand_distance ''paypal.com'' = 0" "brand_distance ''paypa1.com'' = 1"
proof -
  have "min_brand_distance ''paypal.com'' = Some 0"
    by code_simp
  then show "brand_distance ''paypal.com'' = 0"
    by (simp add: min_brand_distance_spec)
  have "min_brand_distance ''paypa1.com'' = Some 1"
    by code_simp
  then show "brand_distance ''paypa1.com'' = 1"
    by (simp add: min_brand_distance_spec)
qed

text \<open>
  Claim C7.  For every input, let \<open>d\<close> be the least edit distance from the lowercased
  first label of the registered domain to a brand, which is what \<open>min_brand_distance\<close>
  returns.  Then entry 21 is 1 exactly when \<open>0 < d \<le> 2\<close> (and 0 otherwise), and entry 22
  is \<open>min(d, 10) / 10\<close>.  With the registered domain \<open>paypal.com\<close> the distance is 0 and
  the flag is 0; with \<open>paypa1.com\<close> the distance is 1 and the flag is 1.
\<close>

theorem brand_features:
  "\<exists>v d. extract_features env url = Some v
     \<and> min_brand_distance (registered_domain (parse_url_parts env url)) = Some d
     \<and> (\<forall>b\<in>set BRANDS.
           d \<le> edit_distance (str_lower (hd (str_split CHR ''.'' (registered_domain (parse_url_parts env url))))) b)
     \<and> (\<exists>b\<in>set BRANDS.
           d = edit_distance (str_lower (hd (str_split CHR ''.'' (registered_domain (parse_url_parts env url))))) b)
     \<and> (v ! 21 = 1 \<longleftrightarrow> 0 < d \<and> d \<le> 2)
     \<and> (v ! 21 = 0 \<longleftrightarrow> \<not> (0 < d \<and> d \<le> 2))
     \<and> v ! 22 = real (min d 10) / 10
     \<and> min_brand_distance ''paypal.com'' = Some 0
     \<and> min_brand_distance ''paypa1.com'' = Some 1
     \<and> (registered_domain (parse_url_parts env url) = ''paypal.com'' \<longrightarrow> v ! 21 = 0)
     \<and> (registered_domain (parse_url_parts env url) = ''paypa1.com'' \<longrightarrow> v ! 21 = 1)"
proof -
  let ?dom = "registered_domain (parse_url_parts env url)"
  obtain v where v: "extract_features env url = Some v"
    by (simp add: extract_features_eq Let_def)
  have 21: "v ! 21 = flag (0 < brand_distance ?dom \<and> brand_distance ?dom \<le> 2)"
    by (rule features_nth(23) [OF v refl refl])
  have 22: "v ! 22 = real (min (brand_distance ?dom) 10) / 10"
    by (rule features_nth(24) [OF v refl refl])
  have "?dom = ''paypal.com'' \<longrightarrow> v ! 21 = 0" "?dom = ''paypa1.com'' \<longrightarrow> v ! 21 = 1"
    unfolding 21 using brand_distance_paypal by (simp_all add: flag_def)
  moreover have "(v ! 21 = 1 \<longleftrightarrow> 0 < brand_distance ?dom \<and> brand_distance ?dom \<le> 2)"
    "(v ! 21 = 0 \<longleftrightarrow> \<not> (0 < brand_distance ?dom \<and> brand_distance ?dom \<le> 2))"
    unfolding 21 by (simp_all add: flag_def)
  moreover note v 22 brand_distance_Min [of ?dom, unfolded domain_core_def]
    min_brand_distance_spec [of ?dom]
    min_brand_distance_spec [of "''paypal.com''"] min_brand_distance_spec [of "''paypa1.com''"]
    brand_distance_paypal
  ultimately show ?thesis
    by (intro exI [of _ v] exI [of _ "brand_distance ?dom"]) simp
qed

lemma parse_paypa1:
  "parse_url_parts env ''http://paypa1.com'' =
     \<lparr>scheme = ''http'', host = ''paypa1.com'', path = '''', query = '''', fragment = '''',
      port = None, tld = ''com'', registered_domain = ''paypa1.com'', subdomain = '''',
      labels = [''paypa1'', ''com'']\<rparr>"
proof -
  have 1: "urlsplit env ''http://paypa1.com'' =
      Some \<lparr>sr_scheme = ''http'', sr_netloc = ''paypa1.com'', sr_path = '''', sr_query = '''',
            sr_fragment = ''''\<rparr>"
    by (simp add: urlsplit_def Let_def chr_defs str_defs unsafe_url_bytes_to_remove_def
        scheme_chars_def splitnetloc_def)
  have 2: "urlparse env ''http://paypa1.com'' =
      Some \<lparr>pr_scheme = ''http'', pr_netloc = ''paypa1.com'', pr_path = '''', pr_params = '''',
            pr_query = '''', pr_fragment = ''''\<rparr>"
    by (simp add: urlparse_def 1 uses_params_def)
  show ?thesis
    by (simp add: parse_url_parts_def parse_try_def 2 chr_defs str_defs Let_def)
qed

theorem brand_features_witness:
  "registered_domain (parse_url_parts default_env ''http://paypa1.com'') = ''paypa1.com''
   \<and> (\<exists>v. extract_features default_env ''http://paypa1.com'' = Some v \<and> v ! 21 = 1
          \<and> v ! 22 = 1 / 10)"
proof -
  have r: "registered_domain (parse_url_parts default_env ''http://paypa1.com'') = ''paypa1.com''"
    by (simp add: parse_paypa1)
  from brand_features [of default_env "''http://paypa1.com''"]
  obtain v d where v: "extract_features default_env ''http://paypa1.com'' = Some v"
    and d: "min_brand_distance (registered_domain (parse_url_parts default_env ''http://paypa1.com'')) = Some d"
    and f: "v ! 22 = real (min d 10) / 10"
      "registered_domain (parse_url_parts default_env ''http://paypa1.com'') = ''paypa1.com'' \<longrightarrow> v ! 21 = 1"
      "min_brand_distance ''paypa1.com'' = Some 1"
    by blast
  from d f(3) have "d = 1" unfolding r by simp
  with v f r show ?thesis by simp
qed

lemma parse_example:
  "parse_url_parts env ''http://paypal-secure.account-verify.xyz/signin'' =
     \<lparr>scheme = ''http'', host = ''paypal-secure.account-verify.xyz'', path = ''/signin'',
      query = '''', fragment = '''', port = None, tld = ''xyz'',
      registered_domain = ''account-verify.xyz'', subdomain = ''paypal-secure'',
      labels = [''paypal-secure'', ''account-verify'', ''xyz'']\<rparr>"
proof -
  have 1: "urlsplit env ''http://paypal-secure.account-verify.xyz/signin'' =
      Some \<lparr>sr_scheme = ''http'', sr_netloc = ''paypal-secure.account-verify.xyz'',
            sr_path = ''/signin'', sr_query = '''', sr_fragment = ''''\<rparr>"
    by (simp add: urlsplit_def Let_def chr_defs str_defs unsafe_url_bytes_to_remove_def
        scheme_chars_def splitnetloc_def)
  have 2: "urlparse env ''http://paypal-secure.account-verify.xyz/signin'' =
      Some \<lparr>pr_scheme = ''http'', pr_netloc = ''paypal-secure.account-verify.xyz'',
            pr_path = ''/signin'', pr_params = '''', pr_query = '''', pr_fragment = ''''\<rparr>"
    by (simp add: urlparse_def 1 uses_params_def)
  show ?thesis
    by (simp add: parse_url_parts_def parse_try_def 2 chr_defs str_defs Let_def)
qed

text \<open>
  Claim C9.  For \<open>http://paypal-secure.account-verify.xyz/signin\<close>, in every
  environment: is_https (11) is 0, suspicious_tld (38) is 1, hyphen_in_domain (30) is 1,
  has_trust_kw_in_domain (25) is 1 and brand_in_subdomain_only (23) is 1; the subdomain
  is \<open>paypal-secure\<close>, which contains the brand \<open>paypal\<close>, and no brand occurs in the
  first label \<open>account-verify\<close> of the registered domain.
\<close>

theorem example_features:
  assumes "order_ok env"
  shows "\<exists>v. extract_features env ''http://paypal-secure.account-verify.xyz/signin'' = Some v
     \<and> v ! 11 = 0 \<and> v ! 38 = 1 \<and> v ! 30 = 1 \<and> v ! 25 = 1 \<and> v ! 23 = 1
     \<and> subdomain (parse_url_parts env ''http://paypal-secure.account-verify.xyz/signin'')
          = ''paypal-secure''
     \<and> hd (str_split CHR ''.''
          (registered_domain (parse_url_parts env ''http://paypal-secure.account-verify.xyz/signin'')))
          = ''account-verify''
     \<and> str_in ''paypal'' ''paypal-secure''
     \<and> \<not> list_ex (\<lambda>b. str_in b ''account-verify'') BRANDS"
proof -
  let ?url = "''http://paypal-secure.account-verify.xyz/signin''"
  obtain v where v: "extract_features env ?url = Some v"
    by (simp add: extract_features_eq Let_def)
  note n = features_nth [OF v refl refl, unfolded parse_example parsed_url.simps]
  have sub: "list_ex (\<lambda>b. str_in b ''paypal-secure'') BRANDS"
    by code_simp
  have reg: "\<not> list_ex (\<lambda>b. str_in b ''account-verify'') BRANDS"
    by code_simp
  have core: "hd (str_split CHR ''.'' ''account-verify.xyz'') = ''account-verify''"
    by simp
  have trust: "\<exists>k\<in>set trust_kw. str_in k ''paypal-secure.account-verify.xyz''"
    by code_simp
  have tld: "''xyz'' \<in> set SUSPICIOUS_TLDS"
    by (simp add: SUSPICIOUS_TLDS_def)
  have hy: "CHR ''-'' \<in> set ''paypal-secure.account-verify.xyz''"
    by simp
  have pp: "str_in ''paypal'' ''paypal-secure''"
    by simp
  have 11: "v ! 11 = 0"
    unfolding n(13) by (simp add: flag_def)
  have 38: "v ! 38 = 1"
    unfolding n(40) using tld by (simp only: flag_def if_True)
  have 30: "v ! 30 = 1"
    unfolding n(32) using hy by (simp only: flag_def if_True)
  have 25: "v ! 25 = 1"
    unfolding n(27) list_ex_iter_set [OF assms] using trust by (simp only: flag_def if_True)
  have 23: "v ! 23 = 1"
    unfolding n(25) core using sub reg by (simp only: flag_def simp_thms if_True)
  from v 11 38 30 25 23 reg pp core show ?thesis
    by (simp add: parse_example)
qed

theorem example_features_witness:
  "order_ok default_env
   \<and> (\<exists>v. extract_features default_env ''http://paypal-secure.account-verify.xyz/signin'' = Some v
     \<and> v ! 11 = 0 \<and> v ! 38 = 1 \<and> v ! 30 = 1 \<and> v ! 25 = 1 \<and> v ! 23 = 1)"
proof -
  have ok: "order_ok default_env"
    by (simp add: order_ok_def default_env_def)
  from example_features [OF ok] obtain v where
    "extract_features default_env ''http://paypal-secure.account-verify.xyz/signin'' = Some v"
    "v ! 11 = 0" "v ! 38 = 1" "v ! 30 = 1" "v ! 25 = 1" "v ! 23 = 1"
    by blast
  with ok show ?thesis by blast
qed

section \<open>The fallback of parse_url_parts\<close>

lemma str_in_suffix: "prefix sub ys \<Longrightarrow> str_in sub (xs @ ys)"
proof (induction xs)
  case Nil
  then show ?case by (cases ys) simp_all
next
  case (Cons x xs)
  then show ?case by simp
qed

lemma no_slashes_after_strip:
  assumes "\<not> str_in ''//'' url"
  shows "take 2 (dropWhile P url) \<noteq> ''//''"
proof
  assume "take 2 (dropWhile P url) = ''//''"
  then have "prefix ''//'' (dropWhile P url)"
    by (metis take_is_prefix)
  then have "str_in ''//'' (takeWhile P url @ dropWhile P url)"
    by (rule str_in_suffix)
  with assms show False by simp
qed

lemma take_min_length: "take (min n (length xs)) xs = take n xs"
  by (cases "n \<le> length xs") (simp_all add: min_def)

lemma urlsplit_no_scheme:
  assumes "CHR '':'' \<notin> set url" "\<not> str_in ''//'' url"
    and "set url \<inter> set unsafe_url_bytes_to_remove = {}"
  shows "\<exists>sr. urlsplit env url = Some sr \<and> sr_scheme sr = '''' \<and> sr_netloc sr = ''''
    \<and> (CHR ''?'' \<notin> set url \<and> CHR ''#'' \<notin> set url \<longrightarrow>
         sr_path sr = dropWhile c0_control_or_space url \<and> sr_query sr = '''' \<and> sr_fragment sr = '''')"
proof -
  let ?u = "dropWhile c0_control_or_space url"
  have sub: "set ?u \<subseteq> set url"
    by (rule set_dropWhileD [THEN subsetI])
  then have clean: "filter (\<lambda>c. c \<notin> set unsafe_url_bytes_to_remove) ?u = ?u"
    using assms(3) by (auto simp: filter_id_conv)
  have colon: "str_find CHR '':'' ?u = - 1"
    using sub assms(1) by (auto simp: str_find_def str_find_from_def)
  have sl: "slice_to ?u 2 \<noteq> ''//''"
    using no_slashes_after_strip [OF assms(2), of c0_control_or_space]
    by (simp add: slice_to_def slice_index_def take_min_length)
  have q: "CHR ''?'' \<notin> set url \<and> CHR ''#'' \<notin> set url \<Longrightarrow> CHR ''?'' \<notin> set ?u \<and> CHR ''#'' \<notin> set ?u"
    using sub by blast
  show ?thesis
    unfolding urlsplit_def Let_def clean colon
    using sl q by (auto simp: case_prod_beta)
qed

lemma parse_try_no_scheme:
  assumes "CHR '':'' \<notin> set url" "\<not> str_in ''//'' url"
    and "set url \<inter> set unsafe_url_bytes_to_remove = {}"
  shows "\<exists>p. parse_try env url = Some p \<and> scheme p = '''' \<and> host p = '''' \<and> port p = None
    \<and> tld p = '''' \<and> registered_domain p = '''' \<and> subdomain p = '''' \<and> labels p = ['''']
    \<and> (CHR ''?'' \<notin> set url \<and> CHR ''#'' \<notin> set url \<and> CHR '';'' \<notin> set url \<longrightarrow>
         path p = dropWhile c0_control_or_space url \<and> query p = '''' \<and> fragment p = '''')"
proof -
  from urlsplit_no_scheme [OF assms, of env] obtain sr where
    sr: "urlsplit env url = Some sr" "sr_scheme sr = ''''" "sr_netloc sr = ''''"
    "CHR ''?'' \<notin> set url \<and> CHR ''#'' \<notin> set url \<longrightarrow>
       sr_path sr = dropWhile c0_control_or_space url \<and> sr_query sr = '''' \<and> sr_fragment sr = ''''"
    by blast
  have semi: "CHR '';'' \<notin> set url \<Longrightarrow> CHR '';'' \<notin> set (dropWhile c0_control_or_space url)"
    using set_dropWhileD by fastforce
  obtain pr where pr: "urlparse env url = Some pr" "pr_scheme pr = ''''" "pr_netloc pr = ''''"
    "CHR ''?'' \<notin> set url \<and> CHR ''#'' \<notin> set url \<and> CHR '';'' \<notin> set url \<longrightarrow>
       pr_path pr = dropWhile c0_control_or_space url \<and> pr_query pr = '''' \<and> pr_fragment pr = ''''"
    using sr semi by (auto simp: urlparse_def Let_def case_prod_beta)
  show ?thesis
    using pr
    by (simp add: parse_try_def Let_def str_lower_def str_partition_def str_isdigit_def
        getlast_def)
qed

text \<open>
  Claim C2, as it is written, does not hold: \<open>example.com\<close> has no scheme and no
  \<open>//\<close>, nothing raises, and the parsed host is empty; the input is the path.
\<close>

theorem no_scheme_host_is_empty:
  "CHR '':'' \<notin> set ''example.com'' \<and> \<not> str_in ''//'' ''example.com''
   \<and> parse_try default_env ''example.com'' \<noteq> None
   \<and> host (parse_url_parts default_env ''example.com'') = ''''
   \<and> host (parse_url_parts default_env ''example.com'') \<noteq> ''example.com''
   \<and> path (parse_url_parts default_env ''example.com'') = ''example.com''
   \<and> labels (parse_url_parts default_env ''example.com'') = ['''']"
proof -
  have "parse_try default_env ''example.com'' =
      Some \<lparr>scheme = '''', host = '''', path = ''example.com'', query = '''', fragment = '''',
            port = None, tld = '''', registered_domain = '''', subdomain = '''', labels = ['''']\<rparr>"
    by code_simp
  then show ?thesis
    by (simp add: parse_url_parts_def)
qed

text \<open>
  Claim C2, amended.  \<open>parse_url_parts\<close> never raises.  When the body of the \<open>try\<close>
  raises, the result is the fallback: the whole input is the host and the registered
  domain, the labels are the input alone, and every other field is empty.  An input with
  no colon, no \<open>//\<close> and no tab, carriage return or line feed does not raise: its scheme,
  host, tld, registered domain and subdomain are empty, it has no port, its labels are
  one empty label, and (when it has no \<open>?\<close>, \<open>#\<close> or \<open>;\<close>) its text, without leading
  control characters and spaces, is the path.
\<close>

theorem parse_url_parts_fallback:
  "(parse_try env url = None \<longrightarrow>
      parse_url_parts env url =
        \<lparr>scheme = '''', host = url, path = '''', query = '''', fragment = '''', port = None,
         tld = '''', registered_domain = url, subdomain = '''', labels = [url]\<rparr>)
   \<and> (CHR '':'' \<notin> set url \<and> \<not> str_in ''//'' url
        \<and> set url \<inter> set unsafe_url_bytes_to_remove = {} \<longrightarrow>
      parse_try env url \<noteq> None
      \<and> scheme (parse_url_parts env url) = '''' \<and> host (parse_url_parts env url) = ''''
      \<and> port (parse_url_parts env url) = None \<and> tld (parse_url_parts env url) = ''''
      \<and> registered_domain (parse_url_parts env url) = ''''
      \<and> subdomain (parse_url_parts env url) = '''' \<and> labels (parse_url_parts env url) = ['''']
      \<and> (CHR ''?'' \<notin> set url \<and> CHR ''#'' \<notin> set url \<and> CHR '';'' \<notin> set url \<longrightarrow>
           path (parse_url_parts env url) = dropWhile c0_control_or_space url
           \<and> query (parse_url_parts env url) = '''' \<and> fragment (parse_url_parts env url) = ''''))"
proof (intro conjI impI)
  assume "parse_try env url = None"
  then show "parse_url_parts env url =
        \<lparr>scheme = '''', host = url, path = '''', query = '''', fragment = '''', port = None,
         tld = '''', registered_domain = url, subdomain = '''', labels = [url]\<rparr>"
    by (simp add: parse_url_parts_def parse_except_def)
next
  assume h: "CHR '':'' \<notin> set url \<and> \<not> str_in ''//'' url
        \<and> set url \<inter> set unsafe_url_bytes_to_remove = {}"
  then obtain p where p: "parse_try env url = Some p" "scheme p = ''''" "host p = ''''"
    "port p = None" "tld p = ''''" "registered_domain p = ''''" "subdomain p = ''''"
    "labels p = ['''']"
    "CHR ''?'' \<notin> set url \<and> CHR ''#'' \<notin> set url \<and> CHR '';'' \<notin> set url \<longrightarrow>
         path p = dropWhile c0_control_or_space url \<and> query p = '''' \<and> fragment p = ''''"
    using parse_try_no_scheme [of url env] by blast
  then have e: "parse_url_parts env url = p"
    by (simp add: parse_url_parts_def)
  show "parse_try env url \<noteq> None" using p(1) by simp
  show "scheme (parse_url_parts env url) = ''''" unfolding e by (rule p)
  show "host (parse_url_parts env url) = ''''" unfolding e by (rule p)
  show "port (parse_url_parts env url) = None" unfolding e by (rule p)
  show "tld (parse_url_parts env url) = ''''" unfolding e by (rule p)
  show "registered_domain (parse_url_parts env url) = ''''" unfolding e by (rule p)
  show "subdomain (parse_url_parts env url) = ''''" unfolding e by (rule p)
  show "labels (parse_url_parts env url) = ['''']" unfolding e by (rule p)
  {
    assume q: "CHR ''?'' \<notin> set url \<and> CHR ''#'' \<notin> set url \<and> CHR '';'' \<notin> set url"
    show "path (parse_url_parts env url) = dropWhile c0_control_or_space url"
      unfolding e using p(9) q by blast
    show "query (parse_url_parts env url) = ''''"
      unfolding e using p(9) q by blast
    show "fragment (parse_url_parts env url) = ''''"
      unfolding e using p(9) q by blast
  }
qed

theorem parse_url_parts_fallback_witness:
  "parse_try default_env ''http://[::1'' = None
   \<and> host (parse_url_parts default_env ''http://[::1'') = ''http://[::1''
   \<and> labels (parse_url_parts default_env ''http://[::1'') = [''http://[::1'']
   \<and> CHR '':'' \<notin> set '' example.com/a'' \<and> \<not> str_in ''//'' '' example.com/a''
   \<and> set '' example.com/a'' \<inter> set unsafe_url_bytes_to_remove = {}
   \<and> host (parse_url_parts default_env '' example.com/a'') = ''''
   \<and> path (parse_url_parts default_env '' example.com/a'') = ''example.com/a''"
proof -
  have n: "parse_try default_env ''http://[::1'' = None"
    by code_simp
  have h: "CHR '':'' \<notin> set '' example.com/a'' \<and> \<not> str_in ''//'' '' example.com/a''
      \<and> set '' example.com/a'' \<inter> set unsafe_url_bytes_to_remove = {}"
    by (simp add: unsafe_url_bytes_to_remove_def)
  have q: "CHR ''?'' \<notin> set '' example.com/a'' \<and> CHR ''#'' \<notin> set '' example.com/a''
      \<and> CHR '';'' \<notin> set '' example.com/a''"
    by simp
  have d: "dropWhile c0_control_or_space '' example.com/a'' = ''example.com/a''"
    by (simp add: c0_control_or_space_def code_point_def)
  from parse_url_parts_fallback [of default_env "''http://[::1''"] n
  have 1: "host (parse_url_parts default_env ''http://[::1'') = ''http://[::1''"
    "labels (parse_url_parts default_env ''http://[::1'') = [''http://[::1'']"
    by simp_all
  from parse_url_parts_fallback [of default_env "'' example.com/a''"] h q
  have 2: "host (parse_url_parts default_env '' example.com/a'') = ''''"
    "path (parse_url_parts default_env '' example.com/a'') = dropWhile c0_control_or_space '' example.com/a''"
    by blast+
  from n h 1 2 show ?thesis
    unfolding d by blast
qed

section \<open>The suspicious UPI address\<close>

text \<open>
  Claim C8, as it is written, does not hold: the code lowercases the handle and the
  local part of a match before it tests them.  In \<open>a@YBL\<close> the only match has the
  handle \<open>YBL\<close>, which is not in the set of legitimate handles, yet entry 49 is 0.  In
  \<open>REFUND@ybl\<close> the handle is legitimate and the local part \<open>REFUND\<close> contains none
  of the tokens as they are written, yet entry 49 is 1.
\<close>

theorem upi_case_is_folded:
  "re_finditer upi_re ''a@YBL'' = [''a@YBL'']
   \<and> vpa_handle ''a@YBL'' = ''YBL''
   \<and> ''YBL'' \<notin> set LEGIT_UPI_HANDLES
   \<and> extract_features default_env ''a@YBL'' \<noteq> None
   \<and> the (extract_features default_env ''a@YBL'') ! 49 = 0
   \<and> re_finditer upi_re ''REFUND@ybl'' = [''REFUND@ybl'']
   \<and> vpa_handle ''REFUND@ybl'' = ''ybl'' \<and> vpa_local ''REFUND@ybl'' = ''REFUND''
   \<and> ''ybl'' \<in> set LEGIT_UPI_HANDLES
   \<and> fraud_pfx = [''refund'', ''tax'', ''prize'', ''block'', ''kyc'', ''urgent'', ''helpdesk'',
                    ''support'', ''care'']
   \<and> \<not> str_in ''refund'' ''REFUND''
   \<and> \<not> str_in ''tax'' ''REFUND''
   \<and> \<not> str_in ''prize'' ''REFUND''
   \<and> \<not> str_in ''block'' ''REFUND''
   \<and> \<not> str_in ''kyc'' ''REFUND''
   \<and> \<not> str_in ''urgent'' ''REFUND''
   \<and> \<not> str_in ''helpdesk'' ''REFUND''
   \<and> \<not> str_in ''support'' ''REFUND''
   \<and> \<not> str_in ''care'' ''REFUND''
   \<and> extract_features default_env ''REFUND@ybl'' \<noteq> None
   \<and> the (extract_features default_env ''REFUND@ybl'') ! 49 = 1"
proof -
  obtain v where v: "extract_features default_env ''a@YBL'' = Some v"
    by (simp add: extract_features_eq Let_def)
  obtain w where w: "extract_features default_env ''REFUND@ybl'' = Some w"
    by (simp add: extract_features_eq Let_def)
  have m1: "re_finditer upi_re ''a@YBL'' = [''a@YBL'']"
    by code_simp
  have m2: "re_finditer upi_re ''REFUND@ybl'' = [''REFUND@ybl'']"
    by code_simp
  have l1: "upi_loop default_env [''a@YBL''] = Some 0"
    by code_simp
  have l2: "upi_loop default_env [''REFUND@ybl''] = Some 1"
    by code_simp
  have v49: "v ! 49 = 0"
    unfolding features_nth(51) [OF v refl refl] m1 l1 by simp
  have w49: "w ! 49 = 1"
    unfolding features_nth(51) [OF w refl refl] m2 l2 by simp
  have h1: "vpa_handle ''a@YBL'' = ''YBL''"
    by (simp add: vpa_handle_def)
  have h2: "vpa_handle ''REFUND@ybl'' = ''ybl''" "vpa_local ''REFUND@ybl'' = ''REFUND''"
    by (simp_all add: vpa_handle_def vpa_local_def)
  have n1: "''YBL'' \<notin> set LEGIT_UPI_HANDLES"
    by (simp add: LEGIT_UPI_HANDLES_def)
  have n2: "''ybl'' \<in> set LEGIT_UPI_HANDLES"
    by (simp add: LEGIT_UPI_HANDLES_def)
  have n3: "\<not> str_in ''refund'' ''REFUND''"
    "\<not> str_in ''tax'' ''REFUND''"
    "\<not> str_in ''prize'' ''REFUND''"
    "\<not> str_in ''block'' ''REFUND''"
    "\<not> str_in ''kyc'' ''REFUND''"
    "\<not> str_in ''urgent'' ''REFUND''"
    "\<not> str_in ''helpdesk'' ''REFUND''"
    "\<not> str_in ''support'' ''REFUND''"
    "\<not> str_in ''care'' ''REFUND''"
    by simp_all
  from v49 w49 show ?thesis
    unfolding v w option.sel using m1 m2 h1 h2 n1 n2 n3 by (simp add: fraud_pfx_def)
qed

text \<open>
  Claim C8, amended.  For every input URL, entry 49 (suspicious_upi_vpa) is 1 if and
  only if some match of the VPA pattern in the URL has a handle (the text after the last
  \<open>@\<close>) that, lowercased, is not in the set of legitimate handles, or a local part (the
  text before the first \<open>@\<close>) that, lowercased, contains one of the tokens refund, tax,
  prize, block, kyc, urgent, helpdesk, support, care; otherwise it is 0.  The scan stops
  at the first suspicious match: whatever follows it, the loop returns 1.
\<close>

theorem suspicious_upi_vpa:
  assumes "order_ok env"
  shows "\<exists>v. extract_features env url = Some v
     \<and> (v ! 49 = 1 \<longleftrightarrow> (\<exists>m\<in>set (re_finditer upi_re url). suspicious_vpa m))
     \<and> (v ! 49 = 0 \<longleftrightarrow> \<not> (\<exists>m\<in>set (re_finditer upi_re url). suspicious_vpa m))
     \<and> (\<forall>m rest. suspicious_vpa m \<longrightarrow> upi_loop env (m # rest) = Some 1)"
proof -
  obtain v where v: "extract_features env url = Some v"
    by (simp add: extract_features_eq Let_def)
  have "v ! 49 = flag (\<exists>m\<in>set (re_finditer upi_re url). suspicious_vpa m)"
    unfolding features_nth(51) [OF v refl refl] upi_loop_spec [OF assms] by simp
  then have iff: "v ! 49 = 1 \<longleftrightarrow> (\<exists>m\<in>set (re_finditer upi_re url). suspicious_vpa m)"
    "v ! 49 = 0 \<longleftrightarrow> \<not> (\<exists>m\<in>set (re_finditer upi_re url). suspicious_vpa m)"
    by (simp_all add: flag_def)
  have stop: "upi_loop env (m # rest) = Some 1" if "suspicious_vpa m" for m rest
    using that unfolding upi_loop_spec [OF assms] by (simp add: flag_def)
  from v iff stop show ?thesis
    by blast
qed

theorem suspicious_upi_vpa_witness:
  "order_ok default_env
   \<and> re_finditer upi_re ''upi://pay?pa=REFUND@ybl&x=a@okaxis'' = [''REFUND@ybl'', ''a@okaxis'']
   \<and> suspicious_vpa ''REFUND@ybl''
   \<and> (\<exists>v. extract_features default_env ''upi://pay?pa=REFUND@ybl&x=a@okaxis'' = Some v
         \<and> v ! 49 = 1)
   \<and> upi_loop default_env [''REFUND@ybl'', ''a@okaxis''] = Some 1"
proof -
  have ok: "order_ok default_env"
    by (simp add: order_ok_def default_env_def)
  have ms: "re_finditer upi_re ''upi://pay?pa=REFUND@ybl&x=a@okaxis''
      = [''REFUND@ybl'', ''a@okaxis'']"
    by code_simp
  have s: "suspicious_vpa ''REFUND@ybl''"
    by code_simp
  from suspicious_upi_vpa [OF ok, of "''upi://pay?pa=REFUND@ybl&x=a@okaxis''"]
  obtain v where v: "extract_features default_env ''upi://pay?pa=REFUND@ybl&x=a@okaxis'' = Some v"
    and iff: "v ! 49 = 1
        \<longleftrightarrow> (\<exists>m\<in>set (re_finditer upi_re ''upi://pay?pa=REFUND@ybl&x=a@okaxis''). suspicious_vpa m)"
    and stop: "\<forall>m rest. suspicious_vpa m \<longrightarrow> upi_loop default_env (m # rest) = Some 1"
    by blast
  from iff s have "v ! 49 = 1"
    unfolding ms by simp
  moreover from stop s have "upi_loop default_env [''REFUND@ybl'', ''a@okaxis''] = Some 1"
    by blast
  ultimately show ?thesis
    using ok ms s v by blast
qed


end
